theory Spec2Isabelle
  imports Main "HOL-Library.AList"
begin

section \<open>JavaScript values and strings\<close>

text \<open>
  The differ of \<^verbatim>\<open>src/diff.ts\<close> works on the values that \<^verbatim>\<open>JSON.parse\<close> returns.
  A number is kept as its canonical rendering (what \<^verbatim>\<open>String(n)\<close> gives): two finite
  numbers are \<^verbatim>\<open>===\<close> exactly when their renderings are equal, and the rendering is all
  the differ ever reads of a number. An object is the list of its own enumerable
  properties in the order \<^verbatim>\<open>Object.keys\<close> lists them; a \<^verbatim>\<open>Map\<close> is an association list in
  insertion order. A string is a list of characters, one per code unit.
  The keys of one object are pairwise different, as they are in JavaScript; no theorem
  below depends on it. Property names that every object inherits from its prototype
  (\<^verbatim>\<open>toString\<close>, \<^verbatim>\<open>constructor\<close>, ...) are taken not to occur as keys of the data.
  \<^verbatim>\<open>undefined\<close> is not a value of the data (\<^verbatim>\<open>JSON.parse\<close> never gives it); it only arises
  from reading a property that is not there, which is \<open>None\<close>.
\<close>

datatype json =
    JNull
  | JBool bool
  | JNum string
  | JStr string
  | JArr "json list"
  | JObj "(string \<times> json) list"

text \<open>\<^verbatim>\<open>typeof\<close>: an array, an object and \<^verbatim>\<open>null\<close> are all \<^verbatim>\<open>"object"\<close>.\<close>

datatype jstype = TBoolean | TNumber | TString | TObject

fun typeof :: "json \<Rightarrow> jstype" where
  "typeof JNull = TObject"
| "typeof (JBool b) = TBoolean"
| "typeof (JNum n) = TNumber"
| "typeof (JStr s) = TString"
| "typeof (JArr xs) = TObject"
| "typeof (JObj kvs) = TObject"

fun isArray :: "json \<Rightarrow> bool" where
  "isArray (JArr xs) = True"
| "isArray v = False"

fun arrayItems :: "json \<Rightarrow> json list" where
  "arrayItems (JArr xs) = xs"
| "arrayItems v = []"

text \<open>The decimal rendering of an array index, and \<^verbatim>\<open>Array.join\<close>.\<close>

definition digitChar :: "nat \<Rightarrow> char" where
  "digitChar d = char_of (48 + d)"

fun showNat :: "nat \<Rightarrow> string" where
  "showNat n = (if n < 10 then [digitChar n] else showNat (n div 10) @ [digitChar (n mod 10)])"

declare showNat.simps [simp del]

fun joinWith :: "string \<Rightarrow> string list \<Rightarrow> string" where
  "joinWith sep [] = []"
| "joinWith sep [x] = x"
| "joinWith sep (x # y # ys) = x @ sep @ joinWith sep (y # ys)"

subsection \<open>\<^verbatim>\<open>JSON.stringify\<close>\<close>

text \<open>
  Without indentation, as \<^verbatim>\<open>formatValue\<close> calls it: a string is quoted with the escapes of
  the standard (the quote, the backslash, the control characters below 0x20), an array and
  an object are written without spaces.
\<close>

definition hexDigit :: "nat \<Rightarrow> char" where
  "hexDigit d = (if d < 10 then char_of (48 + d) else char_of (87 + d))"

definition quoteChar :: "char \<Rightarrow> string" where
  "quoteChar c =
     (let n = (of_char c :: nat) in
      if n = 8 then [CHR 0x5C, CHR ''b'']
      else if n = 9 then [CHR 0x5C, CHR ''t'']
      else if n = 10 then [CHR 0x5C, CHR ''n'']
      else if n = 12 then [CHR 0x5C, CHR ''f'']
      else if n = 13 then [CHR 0x5C, CHR ''r'']
      else if n = 34 then [CHR 0x5C, CHR 0x22]
      else if n = 92 then [CHR 0x5C, CHR 0x5C]
      else if n < 32 then [CHR 0x5C, CHR ''u'', CHR ''0'', CHR ''0'', hexDigit (n div 16), hexDigit (n mod 16)]
      else [c])"

definition quoteJSONString :: "string \<Rightarrow> string" where
  "quoteJSONString s = [CHR 0x22] @ concat (map quoteChar s) @ [CHR 0x22]"

lemma size_snd_member:
  "kv \<in> set kvs \<Longrightarrow> size (snd kv) < size_list (size_prod (\<lambda>_. 0) size) kvs"
  by (cases kv) (auto intro: size_list_estimation)

fun stringify :: "json \<Rightarrow> string" where
  "stringify JNull = ''null''"
| "stringify (JBool b) = (if b then ''true'' else ''false'')"
| "stringify (JNum n) = n"
| "stringify (JStr s) = quoteJSONString s"
| "stringify (JArr xs) = ''['' @ joinWith '','' (map stringify xs) @ '']''"
| "stringify (JObj kvs) =
     ''{'' @ joinWith '','' (map (\<lambda>kv. quoteJSONString (fst kv) @ '':'' @ stringify (snd kv)) kvs) @ ''}''"

subsection \<open>\<^verbatim>\<open>formatValue\<close>\<close>

text \<open>
  A string longer than 100 is cut to 100 and \<^verbatim>\<open>...\<close> before it is quoted; the JSON text of an
  array or object longer than 200 is cut to 200 and \<^verbatim>\<open>...\<close> appended; anything else is printed
  by \<^verbatim>\<open>String\<close>.
\<close>

fun formatValue :: "json \<Rightarrow> string" where
  "formatValue JNull = ''null''"
| "formatValue (JStr s) =
     (if length s > 100 then quoteJSONString (take 100 s @ ''...'') else quoteJSONString s)"
| "formatValue (JArr xs) =
     (let json = stringify (JArr xs) in if length json > 200 then take 200 json @ ''...'' else json)"
| "formatValue (JObj kvs) =
     (let json = stringify (JObj kvs) in if length json > 200 then take 200 json @ ''...'' else json)"
| "formatValue (JBool b) = (if b then ''true'' else ''false'')"
| "formatValue (JNum n) = n"

text \<open>A property read that finds nothing gives \<^verbatim>\<open>undefined\<close>, which \<^verbatim>\<open>formatValue\<close> prints by name.\<close>

fun formatProp :: "json option \<Rightarrow> string" where
  "formatProp None = ''undefined''"
| "formatProp (Some v) = formatValue v"

section \<open>The structural differ (\<^verbatim>\<open>src/diff.ts\<close>)\<close>

text \<open>
  \<^verbatim>\<open>path || "root"\<close>: the empty path is printed as \<^verbatim>\<open>root\<close>.
\<close>

definition orRoot :: "string \<Rightarrow> string" where
  "orRoot path = (if path \<noteq> [] then path else ''root'')"

text \<open>
  \<^verbatim>\<open>getItemKey\<close>: for an object, the first of \<^verbatim>\<open>name\<close>, \<^verbatim>\<open>uri\<close>, \<^verbatim>\<open>uriTemplate\<close>, \<^verbatim>\<open>method\<close> that is a
  string; for anything else, and for an object (or array) without such a field, \<^verbatim>\<open>#\<close> and
  the index.
\<close>

fun stringProp :: "(string \<times> json) list \<Rightarrow> string \<Rightarrow> string option" where
  "stringProp kvs k = (case map_of kvs k of Some (JStr s) \<Rightarrow> Some s | _ \<Rightarrow> None)"

fun getItemKey :: "json \<Rightarrow> nat \<Rightarrow> string" where
  "getItemKey (JObj kvs) index =
     (case stringProp kvs ''name'' of Some s \<Rightarrow> s | None \<Rightarrow>
      case stringProp kvs ''uri'' of Some s \<Rightarrow> s | None \<Rightarrow>
      case stringProp kvs ''uriTemplate'' of Some s \<Rightarrow> s | None \<Rightarrow>
      case stringProp kvs ''method'' of Some s \<Rightarrow> s | None \<Rightarrow>
      ''#'' @ showNat index)"
| "getItemKey item index = ''#'' @ showNat index"

text \<open>
  \<^verbatim>\<open>new Set([...])\<close> keeps the first occurrence of each element, in order.
\<close>

definition setAdd :: "string list \<Rightarrow> string \<Rightarrow> string list" where
  "setAdd s k = (if k \<in> set s then s else s @ [k])"

definition newSet :: "string list \<Rightarrow> string list" where
  "newSet ks = foldl setAdd [] ks"

text \<open>
  \<^verbatim>\<open>Object.keys\<close>, and the reading of a property together with the \<^verbatim>\<open>in\<close> test (\<open>None\<close> when
  the key is not in the value). The object branch of the differ can meet an array (against
  an object): its keys are its indices, and \<^verbatim>\<open>length\<close> is in it without being one of its keys.
\<close>

fun objectKeys :: "json \<Rightarrow> string list" where
  "objectKeys (JObj kvs) = map fst kvs"
| "objectKeys (JArr xs) = map showNat [0..<length xs]"
| "objectKeys v = []"

fun getProp :: "json \<Rightarrow> string \<Rightarrow> json option" where
  "getProp (JObj kvs) k = map_of kvs k"
| "getProp (JArr xs) k =
     (if k = ''length'' then Some (JNum (showNat (length xs)))
      else map_of (zip (map showNat [0..<length xs]) xs) k)"
| "getProp v k = None"

text \<open>
  \<^verbatim>\<open>Map.set\<close> replaces the value of a key that is present, in place, and appends a new key.
  \<open>collectItems\<close> is the \<^verbatim>\<open>forEach\<close> loop of \<^verbatim>\<open>compareArrays\<close> that fills the map from keys to
  \<^verbatim>\<open>{item, index}\<close>.
\<close>

definition mapSet :: "(string \<times> 'v) list \<Rightarrow> string \<Rightarrow> 'v \<Rightarrow> (string \<times> 'v) list" where
  "mapSet m k v = AList.update k v m"

definition itemStep :: "(string \<times> json \<times> nat) list \<Rightarrow> json \<times> nat \<Rightarrow> (string \<times> json \<times> nat) list" where
  "itemStep m e = mapSet m (getItemKey (fst e) (snd e)) e"

definition collectItems :: "json list \<Rightarrow> (string \<times> json \<times> nat) list" where
  "collectItems xs = foldl itemStep [] (zip xs [0..<length xs])"

text \<open>Termination of the differ: every recursive call is on members of the two values.\<close>

lemma foldl_itemStep_subset:
  "set (foldl itemStep m es) \<subseteq> set m \<union> (\<lambda>e. (getItemKey (fst e) (snd e), e)) ` set es"
proof (induction es arbitrary: m)
  case Nil
  then show ?case by simp
next
  case (Cons e es)
  have "set (AList.update k v m) \<subseteq> set m \<union> {(k, v)}" for k and v :: "json \<times> nat"
    by (induction m) auto
  then have "set (itemStep m e) \<subseteq> set m \<union> {(getItemKey (fst e) (snd e), e)}"
    by (simp add: itemStep_def mapSet_def)
  with Cons[of "itemStep m e"] show ?case by auto
qed

lemma collectItems_entry:
  assumes "(k, v) \<in> set (collectItems xs)"
  shows "fst v \<in> set xs \<and> k = getItemKey (fst v) (snd v)"
proof -
  from assms foldl_itemStep_subset[of "[]" "zip xs [0..<length xs]"]
  have "(k, v) \<in> (\<lambda>e. (getItemKey (fst e) (snd e), e)) ` set (zip xs [0..<length xs])"
    unfolding collectItems_def by auto
  then have "v \<in> set (zip xs [0..<length xs])" "k = getItemKey (fst v) (snd v)" by auto
  then show ?thesis by (metis prod.collapse set_zip_leftD)
qed

lemma collectItems_member:
  "e \<in> set (collectItems xs) \<Longrightarrow> fst (snd e) \<in> set xs"
  using collectItems_entry[of "fst e" "snd e" xs] by simp

lemma collectItems_lookup:
  "map_of (collectItems xs) k = Some v \<Longrightarrow> fst v \<in> set xs"
  using collectItems_member[of "(k, v)" xs] by (auto dest: map_of_SomeD)

lemma size_member: "x \<in> set xs \<Longrightarrow> size x < Suc (size_list size xs)"
  by (induction xs) auto

lemma getProp_size:
  "getProp v k = Some x \<Longrightarrow> size x \<le> size v"
proof (cases v)
  case (JArr xs)
  assume g: "getProp v k = Some x"
  show ?thesis
  proof (cases "k = ''length''")
    case True
    with g JArr show ?thesis by auto
  next
    case False
    with g JArr have "x \<in> set xs" by (auto dest!: map_of_SomeD set_zip_rightD)
    with JArr show ?thesis using size_member[of x xs] by simp
  qed
next
  case (JObj kvs)
  assume g: "getProp v k = Some x"
  with JObj have "(k, x) \<in> set kvs" by (auto dest: map_of_SomeD)
  with JObj show ?thesis using size_snd_member[of "(k, x)" kvs] by simp
qed auto

lemma getProp_size_obj:
  "getProp (JObj kvs) k = Some x \<Longrightarrow> size x < size (JObj kvs)"
  using size_snd_member[of "(k, x)" kvs] by (auto dest: map_of_SomeD)

function findJsonDifferences :: "json \<Rightarrow> json \<Rightarrow> string \<Rightarrow> string list"
  and compareArrays :: "json list \<Rightarrow> json list \<Rightarrow> string \<Rightarrow> string list" where
  "findJsonDifferences base target path =
     (if base = JNull then
        (if target \<noteq> JNull then [''+ '' @ orRoot path @ '': '' @ formatValue target] else [])
      else if target = JNull then [''- '' @ orRoot path @ '': '' @ formatValue base]
      else if typeof base \<noteq> typeof target then
        [''- '' @ orRoot path @ '': '' @ formatValue base,
         ''+ '' @ orRoot path @ '': '' @ formatValue target]
      else if isArray base \<and> isArray target then
        compareArrays (arrayItems base) (arrayItems target) path
      else if typeof base = TObject \<and> typeof target = TObject then
        concat (map (\<lambda>key.
          let newPath = (if path \<noteq> [] then path @ ''.'' @ key else key) in
          case getProp base key of
            None \<Rightarrow> [''+ '' @ newPath @ '': '' @ formatProp (getProp target key)]
          | Some b \<Rightarrow>
             (case getProp target key of
                None \<Rightarrow> [''- '' @ newPath @ '': '' @ formatValue b]
              | Some t \<Rightarrow> findJsonDifferences b t newPath))
          (newSet (objectKeys base @ objectKeys target)))
      else if base \<noteq> target then
        [''- '' @ path @ '': '' @ formatValue base, ''+ '' @ path @ '': '' @ formatValue target]
      else [])"
| "compareArrays base target path =
     (let baseItems = collectItems base;
          targetItems = collectItems target
      in concat (map (\<lambda>e.
           if map_of targetItems (fst e) = None
           then [''- '' @ path @ ''['' @ fst e @ '']: '' @ formatValue (fst (snd e))] else []) baseItems)
       @ concat (map (\<lambda>e.
           if map_of baseItems (fst e) = None
           then [''+ '' @ path @ ''['' @ fst e @ '']: '' @ formatValue (fst (snd e))] else []) targetItems)
       @ concat (map (\<lambda>e.
           case map_of targetItems (fst e) of
             None \<Rightarrow> []
           | Some targetEntry \<Rightarrow>
               findJsonDifferences (fst (snd e)) (fst targetEntry) (path @ ''['' @ fst e @ '']''))
           baseItems))"
  by pat_completeness auto

termination
proof (relation "measure (\<lambda>a. case a of
          Inl (b, t, p) \<Rightarrow> 2 * (size b + size t)
        | Inr (bs, ts, p) \<Rightarrow> 2 * (size (JArr bs) + size (JArr ts)) - 1)")
  show "wf (measure (\<lambda>a. case a of
          Inl (b, t, p) \<Rightarrow> 2 * (size b + size t)
        | Inr (bs, ts, p) \<Rightarrow> 2 * (size (JArr bs) + size (JArr ts)) - 1))" by simp
next
  fix base target :: json and path :: string
  assume "isArray base \<and> isArray target"
  then show "(Inr (arrayItems base, arrayItems target, path), Inl (base, target, path)) \<in> measure (\<lambda>a. case a of
          Inl (b, t, p) \<Rightarrow> 2 * (size b + size t)
        | Inr (bs, ts, p) \<Rightarrow> 2 * (size (JArr bs) + size (JArr ts)) - 1)"
    by (cases base; cases target) auto
next
  fix base target :: json and path x xa :: string and x2 x2a :: json
  assume a: "\<not> (isArray base \<and> isArray target)" "typeof base = TObject \<and> typeof target = TObject"
    "base \<noteq> JNull" "target \<noteq> JNull"
    "getProp base x = Some x2" "getProp target x = Some x2a"
  have "size x2 + size x2a < size base + size target"
  proof (cases base)
    case (JObj kvs)
    with a show ?thesis using getProp_size_obj[of kvs x x2] getProp_size[of target x x2a] by simp
  next
    case (JArr xs)
    with a obtain kvs where t: "target = JObj kvs" by (cases target) auto
    with a show ?thesis using getProp_size_obj[of kvs x x2a] getProp_size[of base x x2] by simp
  qed (use a in auto)
  then show "(Inl (x2, x2a, xa), Inl (base, target, path)) \<in> measure (\<lambda>a. case a of
          Inl (b, t, p) \<Rightarrow> 2 * (size b + size t)
        | Inr (bs, ts, p) \<Rightarrow> 2 * (size (JArr bs) + size (JArr ts)) - 1)"
    by simp
next
  fix base target :: "json list" and path :: string and x xa and xb :: "string \<times> json \<times> nat" and x2 :: "json \<times> nat"
  assume a: "xb \<in> set xa" "xa = collectItems base" "map_of x (fst xb) = Some x2" "x = collectItems target"
  then have "fst (snd xb) \<in> set base" "fst x2 \<in> set target"
    using collectItems_member[of xb base] collectItems_lookup[of target "fst xb" x2] by auto
  then have "size (fst (snd xb)) < Suc (size_list size base)" "size (fst x2) < Suc (size_list size target)"
    using size_member by auto
  then show "(Inl (fst (snd xb), fst x2, path @ ''['' @ fst xb @ '']''), Inr (base, target, path)) \<in> measure (\<lambda>a. case a of
          Inl (b, t, p) \<Rightarrow> 2 * (size b + size t)
        | Inr (bs, ts, p) \<Rightarrow> 2 * (size (JArr bs) + size (JArr ts)) - 1)"
    by simp
qed


declare findJsonDifferences.simps [simp del] compareArrays.simps [simp del]

subsection \<open>\<^verbatim>\<open>generateJsonDiff\<close> and \<^verbatim>\<open>compareProbeResults\<close>\<close>

text \<open>
  A \<^verbatim>\<open>Map<string, string>\<close> of endpoint files is an association list in insertion order.
  \<^verbatim>\<open>Map.get\<close> gives \<^verbatim>\<open>undefined\<close> (\<open>None\<close>) for a missing key; a condition on such a value is
  true exactly when the value is a non-empty string.
\<close>

type_synonym files = "(string \<times> string) list"

fun truthy :: "string option \<Rightarrow> bool" where
  "truthy None = False"
| "truthy (Some s) = (s \<noteq> [])"

fun orEmpty :: "string option \<Rightarrow> string" where
  "orEmpty None = []"
| "orEmpty (Some s) = s"

definition newline :: string where
  "newline = [CHR 0x0A]"

text \<open>
  \<^verbatim>\<open>JSON.parse\<close> belongs to the runtime; it is a parameter \<open>parse\<close> that gives \<open>None\<close> where
  \<^verbatim>\<open>JSON.parse\<close> throws.
\<close>

definition generateJsonDiff :: "(string \<Rightarrow> json option) \<Rightarrow> string \<Rightarrow> string \<Rightarrow> string \<Rightarrow> string option" where
  "generateJsonDiff parse name base target =
     (case parse base of
        None \<Rightarrow>
          (if base = target then None
           else Some (''--- base/'' @ name @ newline @ ''+++ target/'' @ name @ newline
                      @ ''- '' @ base @ newline @ ''+ '' @ target))
      | Some baseObj \<Rightarrow>
          (case parse target of
             None \<Rightarrow>
               (if base = target then None
                else Some (''--- base/'' @ name @ newline @ ''+++ target/'' @ name @ newline
                           @ ''- '' @ base @ newline @ ''+ '' @ target))
           | Some targetObj \<Rightarrow>
               (let differences = findJsonDifferences baseObj targetObj [] in
                if differences = [] then None
                else Some (joinWith newline
                  ([''--- base/'' @ name @ ''.json'', ''+++ target/'' @ name @ ''.json'', []]
                   @ differences)))))"

record DiffResult =
  endpoint :: string
  diff :: string

text \<open>
  \<^verbatim>\<open>probeResultToFiles\<close> lives in \<^verbatim>\<open>probe.ts\<close>, of which only the declaration is at hand; it is
  the parameter \<open>toFiles\<close>.
\<close>

definition compareProbeResults ::
  "('p \<Rightarrow> files) \<Rightarrow> (string \<Rightarrow> json option) \<Rightarrow> 'p \<Rightarrow> 'p \<Rightarrow> DiffResult list" where
  "compareProbeResults toFiles parse baseResult targetResult =
     (let baseFiles = toFiles baseResult;
          targetFiles = toFiles targetResult;
          allEndpoints = newSet (map fst baseFiles @ map fst targetFiles)
      in foldl (\<lambda>diffs ep.
           let baseContent = map_of baseFiles ep;
               targetContent = map_of targetFiles ep
           in if \<not> truthy targetContent \<and> truthy baseContent then
                diffs @ [\<lparr>endpoint = ep, diff = ''Endpoint removed in target (was present in base)''\<rparr>]
              else if truthy targetContent \<and> \<not> truthy baseContent then
                diffs @ [\<lparr>endpoint = ep, diff = ''Endpoint added in target (not present in base)''\<rparr>]
              else if baseContent \<noteq> targetContent then
                (case generateJsonDiff parse ep (orEmpty baseContent) (orEmpty targetContent) of
                   None \<Rightarrow> diffs
                 | Some d \<Rightarrow> if d \<noteq> [] then diffs @ [\<lparr>endpoint = ep, diff = d\<rparr>] else diffs)
              else diffs) [] allEndpoints)"

section \<open>The runner (\<^verbatim>\<open>src/runner.ts\<close>)\<close>

subsection \<open>\<^verbatim>\<open>compareResults\<close> and \<^verbatim>\<open>generateSimpleDiff\<close>\<close>

text \<open>
  \<^verbatim>\<open>split("\n")\<close> always gives at least one piece; reading a line past the end of the
  array gives \<^verbatim>\<open>undefined\<close> (\<open>None\<close>). \<^verbatim>\<open>generateSimpleDiff\<close> compares the two texts line by line
  at equal positions.
\<close>

fun splitOn :: "char \<Rightarrow> string \<Rightarrow> string list" where
  "splitOn c [] = [[]]"
| "splitOn c (x # xs) =
     (if x = c then [] # splitOn c xs
      else (case splitOn c xs of [] \<Rightarrow> [[x]] | l # ls \<Rightarrow> (x # l) # ls))"

definition nthOpt :: "'a list \<Rightarrow> nat \<Rightarrow> 'a option" where
  "nthOpt xs i = (if i < length xs then Some (xs ! i) else None)"

definition generateSimpleDiff :: "string \<Rightarrow> string \<Rightarrow> string \<Rightarrow> string option" where
  "generateSimpleDiff name base branch =
     (let baseLines = splitOn (CHR 0x0A) base;
          branchLines = splitOn (CHR 0x0A) branch;
          maxLines = max (length baseLines) (length branchLines);
          diffLines = concat (map (\<lambda>i.
            let baseLine = nthOpt baseLines i;
                branchLine = nthOpt branchLines i
            in if baseLine \<noteq> branchLine then
                 (case baseLine of None \<Rightarrow> [] | Some l \<Rightarrow> [''- '' @ l])
                 @ (case branchLine of None \<Rightarrow> [] | Some l \<Rightarrow> [''+ '' @ l])
               else []) [0..<maxLines])
      in if diffLines = [] then None
         else Some (''--- base/'' @ name @ ''.json'' @ newline @ ''+++ branch/'' @ name @ ''.json''
                    @ newline @ joinWith newline diffLines))"

text \<open>
  \<^verbatim>\<open>compareResults\<close> walks the union of the endpoints of both maps; the tests
  \<^verbatim>\<open>!branchContent && baseContent\<close> and \<^verbatim>\<open>branchContent && !baseContent\<close> are tests for a
  non-empty string.
\<close>

definition compareResults :: "files \<Rightarrow> files \<Rightarrow> files" where
  "compareResults branchFiles baseFiles =
     (let allEndpoints = newSet (map fst branchFiles @ map fst baseFiles)
      in foldl (\<lambda>diffs ep.
           let branchContent = map_of branchFiles ep;
               baseContent = map_of baseFiles ep
           in if \<not> truthy branchContent \<and> truthy baseContent then
                mapSet diffs ep ''Endpoint removed in current branch (was present in base)''
              else if truthy branchContent \<and> \<not> truthy baseContent then
                mapSet diffs ep ''Endpoint added in current branch (not present in base)''
              else if branchContent \<noteq> baseContent then
                (case generateSimpleDiff ep (orEmpty baseContent) (orEmpty branchContent) of
                   None \<Rightarrow> diffs
                 | Some d \<Rightarrow> if d \<noteq> [] then mapSet diffs ep d else diffs)
              else diffs) [] allEndpoints)"

subsection \<open>Configurations, probe results and test results (\<^verbatim>\<open>types.ts\<close>)\<close>

text \<open>
  The sections of a probe result are JSON values, \<open>None\<close> for \<^verbatim>\<open>null\<close>. Where two interfaces
  have a field of the same name, the later one is prefixed: \<open>msg_id\<close> and \<open>msg_name\<close> of a
  custom message, \<open>resultTransport\<close> of a test result.
\<close>

datatype transport = Stdio | StreamableHttp

record CustomMessage =
  msg_id :: int
  msg_name :: string
  message :: json

record TestConfiguration =
  name :: string
  transport :: transport
  start_command :: "string option"
  args :: "string option"
  server_url :: "string option"
  headers :: "(string \<times> string) list option"
  env_vars :: "string option"
  custom_messages :: "CustomMessage list option"

record ProbeResult =
  initialize :: "json option"
  tools :: "json option"
  prompts :: "json option"
  resources :: "json option"
  resourceTemplates :: "json option"
  customResponses :: "(string \<times> json) list"
  error :: "string option"

record TestResult =
  configName :: string
  resultTransport :: string
  branchTime :: int
  baseTime :: int
  hasDifferences :: bool
  diffs :: files

text \<open>Of \<^verbatim>\<open>ActionInputs\<close> the runner itself reads the two build commands and the configurations;
  the other fields only travel on to the probe.\<close>

record ActionInputs =
  installCommand :: string
  buildCommand :: string
  configurations :: "TestConfiguration list"

record RunContext =
  workDir :: string
  inputs :: ActionInputs
  compareRef :: string

fun transportName :: "transport \<Rightarrow> string" where
  "transportName Stdio = ''stdio''"
| "transportName StreamableHttp = ''streamable-http''"

subsection \<open>The outside world\<close>

text \<open>
  Every call that leaves the program is a field of \<open>sys\<close>, a function of the state of the
  world \<open>'w\<close> that returns the new state. A rejected promise or a thrown exception is
  \<open>Inl\<close> of the error's text (what \<^verbatim>\<open>String(error)\<close> gives). \<open>exec\<close> stands for
  \<^verbatim>\<open>exec.exec(cmd, args, {cwd})\<close>: it rejects when the command fails and otherwise gives what
  the command printed. \<open>probe\<close> stands for \<^verbatim>\<open>probeWithConfig\<close>, which only assembles the options of
  \<^verbatim>\<open>probeServer\<close> from the configuration and the inputs. Log lines (\<^verbatim>\<open>core.info\<close>,
  \<^verbatim>\<open>core.warning\<close>) are left out.
\<close>

record 'w sys =
  exec :: "string \<Rightarrow> string list \<Rightarrow> string option \<Rightarrow> 'w \<Rightarrow> (string + string) \<times> 'w"
  probe :: "TestConfiguration \<Rightarrow> string \<Rightarrow> 'w \<Rightarrow> (string + ProbeResult) \<times> 'w"
  probeResultToFiles :: "ProbeResult \<Rightarrow> files"
  now :: "'w \<Rightarrow> int"
  mkdirSync :: "string \<Rightarrow> 'w \<Rightarrow> (string + unit) \<times> 'w"
  writeFileSync :: "string \<Rightarrow> TestResult \<Rightarrow> 'w \<Rightarrow> (string + unit) \<times> 'w"
  pathJoin :: "string list \<Rightarrow> string"
  pathDirname :: "string \<Rightarrow> string"

text \<open>
  Each operation also reports the calls it made, in order, so that what happened during a
  run can be read off afterwards.
\<close>

datatype event =
    EvProbe TestConfiguration string "string + ProbeResult"
  | EvCreateWorktree string string bool
  | EvCheckout string
  | EvSh string string
  | EvRemoveWorktree string
  | EvCheckoutPrevious
  | EvMkdir string
  | EvWriteFile string TestResult
  | EvGit "string list"

subsection \<open>Git primitives (\<^verbatim>\<open>git.ts\<close>)\<close>

definition createWorktree :: "'w sys \<Rightarrow> string \<Rightarrow> string \<Rightarrow> 'w \<Rightarrow> bool \<times> 'w \<times> event list" where
  "createWorktree sys ref path w =
     (case exec sys ''git'' [''worktree'', ''add'', ''--quiet'', path, ref] None w of
        (Inl e, w') \<Rightarrow> (False, w', [EvCreateWorktree ref path False])
      | (Inr out, w') \<Rightarrow> (True, w', [EvCreateWorktree ref path True]))"

definition removeWorktree :: "'w sys \<Rightarrow> string \<Rightarrow> 'w \<Rightarrow> 'w \<times> event list" where
  "removeWorktree sys path w =
     (case exec sys ''git'' [''worktree'', ''remove'', ''--force'', path] None w of
        (r, w') \<Rightarrow> (w', [EvRemoveWorktree path]))"

definition checkout :: "'w sys \<Rightarrow> string \<Rightarrow> 'w \<Rightarrow> (string + unit) \<times> 'w \<times> event list" where
  "checkout sys ref w =
     (case exec sys ''git'' [''checkout'', ''--quiet'', ref] None w of
        (Inl e, w') \<Rightarrow> (Inl e, w', [EvCheckout ref])
      | (Inr out, w') \<Rightarrow> (Inr (), w', [EvCheckout ref]))"

definition checkoutPrevious :: "'w sys \<Rightarrow> 'w \<Rightarrow> 'w \<times> event list" where
  "checkoutPrevious sys w =
     (case exec sys ''git'' [''checkout'', ''--quiet'', ''-''] None w of
        (r, w') \<Rightarrow> (w', [EvCheckoutPrevious]))"

subsection \<open>\<^verbatim>\<open>runBuild\<close>\<close>

definition runBuild :: "'w sys \<Rightarrow> string \<Rightarrow> ActionInputs \<Rightarrow> 'w \<Rightarrow> (string + unit) \<times> 'w \<times> event list" where
  "runBuild sys dir inp w =
     (case (if installCommand inp \<noteq> []
            then (case exec sys ''sh'' [''-c'', installCommand inp] (Some dir) w of
                    (Inl e, w') \<Rightarrow> (Inl e, w', [EvSh (installCommand inp) dir])
                  | (Inr out, w') \<Rightarrow> (Inr (), w', [EvSh (installCommand inp) dir]))
            else (Inr (), w, [])) of
        (Inl e, w1, ev1) \<Rightarrow> (Inl e, w1, ev1)
      | (Inr u, w1, ev1) \<Rightarrow>
          (if buildCommand inp \<noteq> []
           then (case exec sys ''sh'' [''-c'', buildCommand inp] (Some dir) w1 of
                   (Inl e, w2) \<Rightarrow> (Inl e, w2, ev1 @ [EvSh (buildCommand inp) dir])
                 | (Inr out, w2) \<Rightarrow> (Inr (), w2, ev1 @ [EvSh (buildCommand inp) dir]))
           else (Inr (), w1, ev1)))"

definition probeWithConfig ::
  "'w sys \<Rightarrow> TestConfiguration \<Rightarrow> string \<Rightarrow> 'w \<Rightarrow> (string + ProbeResult) \<times> 'w \<times> event list" where
  "probeWithConfig sys config dir w =
     (case probe sys config dir w of (r, w') \<Rightarrow> (r, w', [EvProbe config dir r]))"

subsection \<open>\<^verbatim>\<open>runSingleConfigTest\<close>\<close>

text \<open>A template literal prints \<^verbatim>\<open>undefined\<close> by name.\<close>

fun templ :: "string option \<Rightarrow> string" where
  "templ None = ''undefined''"
| "templ (Some s) = s"

text \<open>
  \<open>tryBlock\<close> is the body of the \<^verbatim>\<open>try\<close> statement: it gives the outcome (a thrown error or the
  value of \<^verbatim>\<open>return result\<close>) together with \<^verbatim>\<open>useWorktree\<close> as the \<^verbatim>\<open>finally\<close> block finds it.
\<close>

definition tryBlock ::
  "'w sys \<Rightarrow> TestConfiguration \<Rightarrow> RunContext \<Rightarrow> TestResult \<Rightarrow> files \<Rightarrow> string \<Rightarrow> 'w
   \<Rightarrow> (string + TestResult) \<times> bool \<times> 'w \<times> event list" where
  "tryBlock sys config ctx result branchFiles worktreePath w =
     (case createWorktree sys (compareRef ctx) worktreePath w of
        (useWorktree, wa, eva) \<Rightarrow>
          (case (if \<not> useWorktree then checkout sys (compareRef ctx) wa else (Inr (), wa, [])) of
             (Inl e, wb, evb) \<Rightarrow> (Inl e, useWorktree, wb, eva @ evb)
           | (Inr u, wb, evb) \<Rightarrow>
               (let baseWorkDir = (if useWorktree then worktreePath else workDir ctx) in
                case runBuild sys baseWorkDir (inputs ctx) wb of
                  (Inl e, wc, evc) \<Rightarrow> (Inl e, useWorktree, wc, eva @ evb @ evc)
                | (Inr u, wc, evc) \<Rightarrow>
                    (let baseStart = now sys wc in
                     case probeWithConfig sys config baseWorkDir wc of
                       (Inl e, wd, evd) \<Rightarrow> (Inl e, useWorktree, wd, eva @ evb @ evc @ evd)
                     | (Inr baseResult, wd, evd) \<Rightarrow>
                         (let result = result\<lparr>baseTime := now sys wd - baseStart\<rparr> in
                          if truthy (error baseResult) then
                            (Inr (result\<lparr>hasDifferences := True,
                                   diffs := mapSet (diffs result) ''error''
                                     (''Base ref probe failed: '' @ templ (error baseResult))\<rparr>),
                             useWorktree, wd, eva @ evb @ evc @ evd)
                          else
                            (let baseFiles = probeResultToFiles sys baseResult;
                                 d = compareResults branchFiles baseFiles
                             in (Inr (result\<lparr>diffs := d, hasDifferences := (length d > 0)\<rparr>),
                                 useWorktree, wd, eva @ evb @ evc @ evd)))))))"

definition runSingleConfigTest ::
  "'w sys \<Rightarrow> TestConfiguration \<Rightarrow> RunContext \<Rightarrow> 'w \<Rightarrow> (string + TestResult) \<times> 'w \<times> event list" where
  "runSingleConfigTest sys config ctx w =
     (let result = \<lparr>configName = name config, resultTransport = transportName (transport config),
                     branchTime = 0, baseTime = 0, hasDifferences = False, diffs = []\<rparr>;
          branchStart = now sys w
      in case probeWithConfig sys config (workDir ctx) w of
           (Inl e, w1, ev1) \<Rightarrow> (Inl e, w1, ev1)
         | (Inr branchResult, w1, ev1) \<Rightarrow>
             (let result = result\<lparr>branchTime := now sys w1 - branchStart\<rparr> in
              if truthy (error branchResult) then
                (Inr (result\<lparr>hasDifferences := True,
                       diffs := mapSet (diffs result) ''error''
                         (''Current branch probe failed: '' @ templ (error branchResult))\<rparr>),
                 w1, ev1)
              else
                (let branchFiles = probeResultToFiles sys branchResult;
                     worktreePath = pathJoin sys [workDir ctx, ''.conformance-base'']
                 in case tryBlock sys config ctx result branchFiles worktreePath w1 of
                      (outcome, useWorktree, w2, ev2) \<Rightarrow>
                        (case (if useWorktree then removeWorktree sys worktreePath w2
                               else checkoutPrevious sys w2) of
                           (w3, ev3) \<Rightarrow> (outcome, w3, ev1 @ ev2 @ ev3)))))"

subsection \<open>\<^verbatim>\<open>runAllTests\<close>\<close>

definition failedResult :: "TestConfiguration \<Rightarrow> string \<Rightarrow> TestResult" where
  "failedResult config e =
     \<lparr>configName = name config, resultTransport = transportName (transport config),
      branchTime = 0, baseTime = 0, hasDifferences = True, diffs = [(''error'', e)]\<rparr>"

text \<open>One round of the \<^verbatim>\<open>for\<close> loop. The file is written with the result serialised; the
  write is recorded with the result itself.\<close>

definition runAllTests_step ::
  "'w sys \<Rightarrow> RunContext \<Rightarrow> TestResult list \<times> 'w \<times> event list \<Rightarrow> TestConfiguration
   \<Rightarrow> TestResult list \<times> 'w \<times> event list" where
  "runAllTests_step sys ctx acc config =
     (case acc of (results, w, evs) \<Rightarrow>
        (case runSingleConfigTest sys config ctx w of
           (Inl e, w1, ev1) \<Rightarrow> (results @ [failedResult config e], w1, evs @ ev1)
         | (Inr result, w1, ev1) \<Rightarrow>
             (let results = results @ [result];
                  resultPath = pathJoin sys [workDir ctx, ''.conformance-results'', name config @ ''.json'']
              in case mkdirSync sys (pathDirname sys resultPath) w1 of
                   (Inl e, w2) \<Rightarrow>
                     (results @ [failedResult config e], w2,
                      evs @ ev1 @ [EvMkdir (pathDirname sys resultPath)])
                 | (Inr u, w2) \<Rightarrow>
                     (case writeFileSync sys resultPath result w2 of
                        (Inl e, w3) \<Rightarrow>
                          (results @ [failedResult config e], w3,
                           evs @ ev1 @ [EvMkdir (pathDirname sys resultPath), EvWriteFile resultPath result])
                      | (Inr u, w3) \<Rightarrow>
                          (results, w3,
                           evs @ ev1 @ [EvMkdir (pathDirname sys resultPath), EvWriteFile resultPath result])))))"

definition runAllTests :: "'w sys \<Rightarrow> RunContext \<Rightarrow> 'w \<Rightarrow> TestResult list \<times> 'w \<times> event list" where
  "runAllTests sys ctx w = foldl (runAllTests_step sys ctx) ([], w, []) (configurations (inputs ctx))"

section \<open>Choosing the comparison ref (\<^verbatim>\<open>git.ts\<close>)\<close>

text \<open>
  \<^verbatim>\<open>trim\<close> removes white space and line ends at both ends; \<^verbatim>\<open>indexOf\<close> gives the first position
  of an element, \<open>None\<close> for -1. \<open>git\<close> runs one git command silently and collects what it
  prints.
\<close>

definition isSpace :: "char \<Rightarrow> bool" where
  "isSpace c = ((of_char c :: nat) \<in> {9, 10, 11, 12, 13, 32, 160})"

definition trim :: "string \<Rightarrow> string" where
  "trim s = rev (dropWhile isSpace (rev (dropWhile isSpace s)))"

fun indexOf :: "'a list \<Rightarrow> 'a \<Rightarrow> nat option" where
  "indexOf [] y = None"
| "indexOf (x # xs) y = (if x = y then Some 0 else map_option Suc (indexOf xs y))"

definition git :: "'w sys \<Rightarrow> string list \<Rightarrow> 'w \<Rightarrow> (string + string) \<times> 'w \<times> event list" where
  "git sys cmdArgs w = (case exec sys ''git'' cmdArgs None w of (r, w') \<Rightarrow> (r, w', [EvGit cmdArgs]))"

text \<open>
  \<^verbatim>\<open>findPreviousTag\<close> reads the tags, newest version first, and gives the one listed after the
  current tag; \<^verbatim>\<open>getFirstCommit\<close> is the one lookup here that lets its error through;
  \<^verbatim>\<open>findMainBranch\<close> tries \<^verbatim>\<open>origin/main\<close>, then \<^verbatim>\<open>main\<close>, then the first commit; \<^verbatim>\<open>getMergeBase\<close>
  falls back to the ref itself.
\<close>

definition findPreviousTag :: "'w sys \<Rightarrow> string \<Rightarrow> 'w \<Rightarrow> string option \<times> 'w \<times> event list" where
  "findPreviousTag sys currentTag w =
     (case git sys [''tag'', ''--sort=-v:refname''] w of
        (Inl e, w', ev) \<Rightarrow> (None, w', ev)
      | (Inr output, w', ev) \<Rightarrow>
          (let tags = splitOn (CHR 0x0A) (trim output) in
           case indexOf tags currentTag of
             None \<Rightarrow> (None, w', ev)
           | Some currentIndex \<Rightarrow>
               (if currentIndex < length tags - 1 then (Some (tags ! (currentIndex + 1)), w', ev)
                else (None, w', ev))))"

definition getFirstCommit :: "'w sys \<Rightarrow> 'w \<Rightarrow> (string + string) \<times> 'w \<times> event list" where
  "getFirstCommit sys w =
     (case git sys [''rev-list'', ''--max-parents=0'', ''HEAD''] w of
        (Inl e, w', ev) \<Rightarrow> (Inl e, w', ev)
      | (Inr output, w', ev) \<Rightarrow> (Inr (templ (nthOpt (splitOn (CHR 0x0A) (trim output)) 0)), w', ev))"

definition findMainBranch :: "'w sys \<Rightarrow> 'w \<Rightarrow> (string + string) \<times> 'w \<times> event list" where
  "findMainBranch sys w =
     (case git sys [''rev-parse'', ''--verify'', ''origin/main''] w of
        (Inr out1, w1, ev1) \<Rightarrow> (Inr ''origin/main'', w1, ev1)
      | (Inl e1, w1, ev1) \<Rightarrow>
          (case git sys [''rev-parse'', ''--verify'', ''main''] w1 of
             (Inr out2, w2, ev2) \<Rightarrow> (Inr ''main'', w2, ev1 @ ev2)
           | (Inl e2, w2, ev2) \<Rightarrow>
               (case getFirstCommit sys w2 of (r, w3, ev3) \<Rightarrow> (r, w3, ev1 @ ev2 @ ev3))))"

definition getMergeBase :: "'w sys \<Rightarrow> string \<Rightarrow> 'w \<Rightarrow> string \<times> 'w \<times> event list" where
  "getMergeBase sys ref w =
     (case git sys [''merge-base'', ''HEAD'', ref] w of
        (Inr output, w', ev) \<Rightarrow> (trim output, w', ev)
      | (Inl e, w', ev) \<Rightarrow> (ref, w', ev))"

text \<open>
  \<^verbatim>\<open>determineCompareRef\<close>. Its doc comment reads: Priority: 1) Explicit compare_ref,
  2) Auto-detect previous tag, 3) Merge-base with main.
\<close>

definition isTagRef :: "string option \<Rightarrow> bool" where
  "isTagRef githubRef = (case githubRef of None \<Rightarrow> False | Some r \<Rightarrow> take 10 r = ''refs/tags/'')"

definition determineCompareRef ::
  "'w sys \<Rightarrow> string option \<Rightarrow> string option \<Rightarrow> 'w \<Rightarrow> (string + string) \<times> 'w \<times> event list" where
  "determineCompareRef sys explicitRef githubRef w =
     (if truthy explicitRef then (Inr (orEmpty explicitRef), w, [])
      else if isTagRef githubRef then
        (let currentTag = drop 10 (orEmpty githubRef) in
         case findPreviousTag sys currentTag w of
           (previousTag, w1, ev1) \<Rightarrow>
             (if truthy previousTag \<and> previousTag \<noteq> Some currentTag
              then (Inr (orEmpty previousTag), w1, ev1)
              else (case getFirstCommit sys w1 of (r, w2, ev2) \<Rightarrow> (r, w2, ev1 @ ev2))))
      else
        (case findMainBranch sys w of
           (Inl e, w1, ev1) \<Rightarrow> (Inl e, w1, ev1)
         | (Inr baseRef, w1, ev1) \<Rightarrow>
             (case getMergeBase sys baseRef w1 of (mergeBase, w2, ev2) \<Rightarrow> (Inr mergeBase, w2, ev1 @ ev2))))"

section \<open>Predicates used in the statements\<close>

text \<open>An array member carries a string \<^verbatim>\<open>name\<close>; \<open>itemName\<close> reads it.\<close>

fun hasName :: "json \<Rightarrow> bool" where
  "hasName (JObj kvs) = (stringProp kvs ''name'' \<noteq> None)"
| "hasName v = False"

fun itemName :: "json \<Rightarrow> string" where
  "itemName (JObj kvs) = (case stringProp kvs ''name'' of Some s \<Rightarrow> s | None \<Rightarrow> [])"
| "itemName v = []"

text \<open>Kinds of recorded calls: a release of the baseline, a shell command of the build, a
  probe that came back with an error set, the creation of the worktree, and the two git
  commands that tell the tag strategy from the merge-base strategy.\<close>

fun isRelease :: "event \<Rightarrow> bool" where
  "isRelease (EvRemoveWorktree p) = True"
| "isRelease EvCheckoutPrevious = True"
| "isRelease ev = False"

fun isSh :: "event \<Rightarrow> bool" where
  "isSh (EvSh c d) = True"
| "isSh ev = False"

fun probeError :: "event \<Rightarrow> bool" where
  "probeError (EvProbe c d (Inr r)) = truthy (error r)"
| "probeError ev = False"

fun isCreate :: "event \<Rightarrow> bool" where
  "isCreate (EvCreateWorktree r p ok) = True"
| "isCreate ev = False"

fun isTagLookup :: "event \<Rightarrow> bool" where
  "isTagLookup (EvGit as) = (as = [''tag'', ''--sort=-v:refname''])"
| "isTagLookup ev = False"

fun isMergeBase :: "event \<Rightarrow> bool" where
  "isMergeBase (EvGit as) = (take 2 as = [''merge-base'', ''HEAD''])"
| "isMergeBase ev = False"

text \<open>What the two comparators enter for one endpoint, if anything.\<close>

definition resultEntry :: "files \<Rightarrow> files \<Rightarrow> string \<Rightarrow> string option" where
  "resultEntry branchFiles baseFiles ep =
     (let branchContent = map_of branchFiles ep;
          baseContent = map_of baseFiles ep
      in if \<not> truthy branchContent \<and> truthy baseContent then
           Some ''Endpoint removed in current branch (was present in base)''
         else if truthy branchContent \<and> \<not> truthy baseContent then
           Some ''Endpoint added in current branch (not present in base)''
         else if branchContent \<noteq> baseContent then
           (case generateSimpleDiff ep (orEmpty baseContent) (orEmpty branchContent) of
              None \<Rightarrow> None
            | Some d \<Rightarrow> if d \<noteq> [] then Some d else None)
         else None)"

definition probeEntry :: "(string \<Rightarrow> json option) \<Rightarrow> files \<Rightarrow> files \<Rightarrow> string \<Rightarrow> string option" where
  "probeEntry parse baseFiles targetFiles ep =
     (let baseContent = map_of baseFiles ep;
          targetContent = map_of targetFiles ep
      in if \<not> truthy targetContent \<and> truthy baseContent then
           Some ''Endpoint removed in target (was present in base)''
         else if truthy targetContent \<and> \<not> truthy baseContent then
           Some ''Endpoint added in target (not present in base)''
         else if baseContent \<noteq> targetContent then
           (case generateJsonDiff parse ep (orEmpty baseContent) (orEmpty targetContent) of
              None \<Rightarrow> None
            | Some d \<Rightarrow> if d \<noteq> [] then Some d else None)
         else None)"

section \<open>A small world to run the code in\<close>

text \<open>
  The state of the world is a counter of the calls made so far, which also serves as the
  clock. The switches say whether the probe of the current branch and of the baseline come
  back with an error, whether a worktree can be created and whether the build succeeds.
\<close>

definition okProbe :: ProbeResult where
  "okProbe = \<lparr>initialize = Some (JObj [(''serverInfo'', JObj [(''name'', JStr ''demo'')])]),
     tools = Some (JObj [(''tools'', JArr [JObj [(''name'', JStr ''echo'')]])]),
     prompts = None, resources = None, resourceTemplates = None,
     customResponses = [], error = None\<rparr>"

definition failedProbe :: ProbeResult where
  "failedProbe = \<lparr>initialize = None, tools = None, prompts = None, resources = None,
     resourceTemplates = None, customResponses = [], error = Some ''Connection closed''\<rparr>"

definition demoFiles :: "ProbeResult \<Rightarrow> files" where
  "demoFiles r =
     (case initialize r of None \<Rightarrow> [] | Some v \<Rightarrow> [(''initialize'', stringify v)])
     @ (case tools r of None \<Rightarrow> [] | Some v \<Rightarrow> [(''tools'', stringify v)])"

definition demoExec :: "bool \<Rightarrow> bool \<Rightarrow> string \<Rightarrow> string list \<Rightarrow> string option \<Rightarrow> nat \<Rightarrow> (string + string) \<times> nat" where
  "demoExec worktreeOk buildOk cmd cmdArgs cwd w =
     (if cmd = ''sh'' then ((if buildOk then Inr [] else Inl ''Error: sh failed with exit code 1''), Suc w)
      else if cmdArgs = [''tag'', ''--sort=-v:refname'']
        then (Inr (''v2.0.0'' @ newline @ ''v1.5.0'' @ newline @ ''v1.0.0'' @ newline), Suc w)
      else if cmdArgs = [''rev-list'', ''--max-parents=0'', ''HEAD''] then (Inr (''abc123'' @ newline), Suc w)
      else if take 2 cmdArgs = [''merge-base'', ''HEAD''] then (Inr (''def456'' @ newline), Suc w)
      else if take 2 cmdArgs = [''worktree'', ''add''] \<and> \<not> worktreeOk
        then (Inl ''Error: git failed with exit code 128'', Suc w)
      else (Inr [], Suc w))"

definition demoSys :: "bool \<Rightarrow> bool \<Rightarrow> bool \<Rightarrow> bool \<Rightarrow> nat sys" where
  "demoSys branchDown baseDown worktreeOk buildOk =
     \<lparr>exec = demoExec worktreeOk buildOk,
      probe = (\<lambda>config dir w.
        (Inr (if (if dir = ''/repo'' then branchDown else baseDown)
              then failedProbe else okProbe), Suc w)),
      probeResultToFiles = demoFiles,
      now = int,
      mkdirSync = (\<lambda>path w. (Inr (), Suc w)),
      writeFileSync = (\<lambda>path r w. (Inr (), Suc w)),
      pathJoin = joinWith ''/'',
      pathDirname = (\<lambda>p. rev (drop 1 (dropWhile (\<lambda>c. c \<noteq> CHR ''/'') (rev p))))\<rparr>"

definition demoConfig :: TestConfiguration where
  "demoConfig = \<lparr>name = ''default'', transport = Stdio, start_command = Some ''node server.js'',
     args = None, server_url = None, headers = None, env_vars = None, custom_messages = None\<rparr>"

definition demoCtx :: RunContext where
  "demoCtx = \<lparr>workDir = ''/repo'',
     inputs = \<lparr>installCommand = [], buildCommand = ''npm run build'', configurations = [demoConfig]\<rparr>,
     compareRef = ''origin/main''\<rparr>"

section \<open>Properties of the differ\<close>

lemma set_foldl_setAdd: "set (foldl setAdd acc ks) = set acc \<union> set ks"
  by (induction ks arbitrary: acc) (auto simp: setAdd_def)

lemma set_newSet: "set (newSet ks) = set ks"
  by (simp add: newSet_def set_foldl_setAdd)

lemma concat_map_Nil: "(\<And>x. x \<in> set xs \<Longrightarrow> f x = []) \<Longrightarrow> concat (map f xs) = []"
  by (induction xs) auto

lemma foldl_itemStep_distinct:
  "distinct (map fst m) \<Longrightarrow> distinct (map fst (foldl itemStep m es))"
  by (induction es arbitrary: m) (auto simp: itemStep_def mapSet_def distinct_update)

lemma collectItems_distinct: "distinct (map fst (collectItems xs))"
  unfolding collectItems_def by (rule foldl_itemStep_distinct) simp

lemma collectItems_lookup_member:
  "e \<in> set (collectItems xs) \<Longrightarrow> map_of (collectItems xs) (fst e) = Some (snd e)"
  using collectItems_distinct[of xs] by (cases e) simp

lemma objectKeys_getProp:
  "key \<in> set (objectKeys (JObj kvs)) \<Longrightarrow> getProp (JObj kvs) key \<noteq> None"
  by (auto simp: map_of_eq_None_iff)

lemma compareArrays_same:
  assumes "\<And>e. e \<in> set (collectItems xs) \<Longrightarrow>
     findJsonDifferences (fst (snd e)) (fst (snd e)) (path @ ''['' @ fst e @ '']'') = []"
  shows "compareArrays xs xs path = []"
  using assms
  by (auto simp: compareArrays.simps Let_def collectItems_lookup_member intro!: concat_map_Nil)

lemma findJsonDifferences_refl_aux:
  "(base = target \<longrightarrow> findJsonDifferences base target path = [])"
  "(bs = ts \<longrightarrow> compareArrays bs ts path' = [])"
proof (induction base target path and bs ts path' rule: findJsonDifferences_compareArrays.induct)
  case (1 base target path)
  show ?case
  proof
    assume eq: "base = target"
    show "findJsonDifferences base target path = []"
    proof (cases base)
      case (JArr xs)
      with eq have t: "target = JArr xs" by simp
      from 1(1) have "compareArrays xs xs path = []" unfolding JArr t by simp
      then show ?thesis unfolding JArr t by (simp add: findJsonDifferences.simps)
    next
      case (JObj kvs)
      have t: "target = JObj kvs" using eq JObj by simp
      have "findJsonDifferences base target path = concat (map (\<lambda>key.
          let newPath = (if path \<noteq> [] then path @ ''.'' @ key else key) in
          case getProp base key of
            None \<Rightarrow> [''+ '' @ newPath @ '': '' @ formatProp (getProp target key)]
          | Some b \<Rightarrow>
             (case getProp target key of
                None \<Rightarrow> [''- '' @ newPath @ '': '' @ formatValue b]
              | Some t \<Rightarrow> findJsonDifferences b t newPath))
          (newSet (objectKeys base @ objectKeys target)))"
        by (subst findJsonDifferences.simps) (simp add: t JObj)
      also have "\<dots> = []"
      proof (rule concat_map_Nil)
        fix key assume k: "key \<in> set (newSet (objectKeys base @ objectKeys target))"
        with t JObj have "key \<in> set (objectKeys (JObj kvs))" by (simp add: set_newSet)
        then obtain b where b: "getProp base key = Some b"
          using objectKeys_getProp[of key kvs] JObj by auto
        have "b = b \<longrightarrow> findJsonDifferences b b (if path \<noteq> [] then path @ ''.'' @ key else key) = []"
          by (rule 1(2)[OF _ _ _ _ _ k refl b]) (use b in \<open>simp_all add: t JObj\<close>)
        then have "findJsonDifferences b b (if path \<noteq> [] then path @ ''.'' @ key else key) = []"
          by simp
        with b eq show "(let newPath = (if path \<noteq> [] then path @ ''.'' @ key else key) in
          case getProp base key of
            None \<Rightarrow> [''+ '' @ newPath @ '': '' @ formatProp (getProp target key)]
          | Some b \<Rightarrow>
             (case getProp target key of
                None \<Rightarrow> [''- '' @ newPath @ '': '' @ formatValue b]
              | Some t \<Rightarrow> findJsonDifferences b t newPath)) = []"
          by (simp add: Let_def)
      qed
      finally show ?thesis .
    qed (use eq in \<open>simp_all add: findJsonDifferences.simps\<close>)
  qed
next
  case (2 base target path)
  show ?case
  proof
    assume eq: "base = target"
    have "compareArrays base base path = []"
    proof (rule compareArrays_same)
      fix e assume e: "e \<in> set (collectItems base)"
      from 2[OF refl refl e, of "snd e"] e eq
      show "findJsonDifferences (fst (snd e)) (fst (snd e)) (path @ ''['' @ fst e @ '']'') = []"
        by (simp add: collectItems_lookup_member)
    qed
    with eq show "compareArrays base target path = []" by simp
  qed
qed

lemma findJsonDifferences_same: "findJsonDifferences x x path = []"
  using findJsonDifferences_refl_aux(1) by simp

lemma distinct_foldl_setAdd: "distinct acc \<Longrightarrow> distinct (foldl setAdd acc ks)"
  by (induction ks arbitrary: acc) (auto simp: setAdd_def)

lemma distinct_newSet: "distinct (newSet ks)"
  by (simp add: newSet_def distinct_foldl_setAdd)

lemma itemStep_keys:
  "map fst (itemStep m e) = setAdd (map fst m) (getItemKey (fst e) (snd e))"
  by (simp add: itemStep_def mapSet_def update_keys setAdd_def)

lemma foldl_itemStep_keys:
  "map fst (foldl itemStep m es) = foldl setAdd (map fst m) (map (\<lambda>e. getItemKey (fst e) (snd e)) es)"
  by (induction es arbitrary: m) (simp_all add: itemStep_keys)

lemma foldl_itemStep_map_of:
  "map_of (foldl itemStep m es) = foldl (\<lambda>f e. f(getItemKey (fst e) (snd e) \<mapsto> e)) (map_of m) es"
  by (induction es arbitrary: m) (simp_all add: itemStep_def mapSet_def update_conv')

lemma alist_eqI:
  "distinct (map fst m) \<Longrightarrow> map fst m = map fst m' \<Longrightarrow> map_of m = map_of m' \<Longrightarrow> m = m'"
proof (induction m arbitrary: m')
  case Nil
  then show ?case by simp
next
  case (Cons p m)
  then obtain p' m'' where m': "m' = p' # m''" by (cases m') auto
  from Cons.prems m' have k: "fst p = fst p'" and ks: "map fst m = map fst m''" by auto
  have eqf: "map_of (p # m) x = map_of (p' # m'') x" for x
    using Cons.prems(3) unfolding m' by (rule fun_cong)
  from eqf[of "fst p"] k have v: "snd p = snd p'" by simp
  have "map_of m = map_of m''"
  proof
    fix x
    show "map_of m x = map_of m'' x"
    proof (cases "x = fst p")
      case True
      with Cons.prems(1) have "x \<notin> fst ` set m" by auto
      moreover from this ks have "x \<notin> fst ` set m''" by (metis set_map)
      ultimately have "map_of m x = None" "map_of m'' x = None"
        by (simp_all add: map_of_eq_None_iff)
      then show ?thesis by simp
    next
      case False
      with eqf[of x] k show ?thesis by simp
    qed
  qed
  with Cons.IH[of m''] Cons.prems(1) ks have "m = m''" by simp
  with k v m' show ?case by (simp add: prod_eq_iff)
qed

lemma foldl_upd_shadowed:
  assumes "\<exists>e2 \<in> set rest. key e2 = k"
  shows "foldl (\<lambda>f e. f(key e \<mapsto> e)) (f(k \<mapsto> v)) rest = foldl (\<lambda>f e. f(key e \<mapsto> e)) (f(k \<mapsto> v')) rest"
  using assms
proof (induction rest arbitrary: f)
  case Nil
  then show ?case by simp
next
  case (Cons e rest)
  show ?case
  proof (cases "key e = k")
    case True
    then show ?thesis by (simp only: foldl_Cons fun_upd_upd)
  next
    case False
    with Cons.prems have ex: "\<exists>e2 \<in> set rest. key e2 = k" by auto
    from False have "f(k \<mapsto> v, key e \<mapsto> e) = (f(key e \<mapsto> e))(k \<mapsto> v)"
      "f(k \<mapsto> v', key e \<mapsto> e) = (f(key e \<mapsto> e))(k \<mapsto> v')"
      by (auto simp: fun_upd_twist)
    with Cons.IH[OF ex, of "f(key e \<mapsto> e)"] show ?thesis by (simp only: foldl_Cons)
  qed
qed

lemma foldl_itemStep_shadowed:
  assumes "getItemKey (fst e') (snd e') = getItemKey (fst e) (snd e)"
    and "\<exists>e2 \<in> set rest. getItemKey (fst e2) (snd e2) = getItemKey (fst e) (snd e)"
  shows "foldl itemStep [] (pre @ e' # rest) = foldl itemStep [] (pre @ e # rest)"
proof (rule alist_eqI)
  show "distinct (map fst (foldl itemStep [] (pre @ e' # rest)))"
    by (rule foldl_itemStep_distinct) simp
  show "map fst (foldl itemStep [] (pre @ e' # rest)) = map fst (foldl itemStep [] (pre @ e # rest))"
    using assms(1) by (simp add: foldl_itemStep_keys itemStep_keys)
  show "map_of (foldl itemStep [] (pre @ e' # rest)) = map_of (foldl itemStep [] (pre @ e # rest))"
    using foldl_upd_shadowed[OF assms(2), of _ e' e] assms(1)
    by (simp add: foldl_itemStep_map_of itemStep_def mapSet_def update_conv')
qed

lemma collectItems_shadowed:
  assumes "i < j" "j < length xs"
    and "getItemKey (xs ! i) i = getItemKey (xs ! j) j"
    and "getItemKey x i = getItemKey (xs ! i) i"
  shows "collectItems (xs[i := x]) = collectItems xs"
proof -
  let ?es = "zip xs [0..<length xs]"
  have len: "i < length ?es" "j < length ?es" using assms by simp_all
  have ei: "?es ! i = (xs ! i, i)" and ej: "?es ! j = (xs ! j, j)" using assms by simp_all
  have es: "?es = take i ?es @ (xs ! i, i) # drop (Suc i) ?es"
    using id_take_nth_drop[OF len(1)] ei by simp
  have u: "[0..<length xs][i := i] = [0..<length xs]"
    using assms list_update_id[of "[0..<length xs]" i] by simp
  have "zip (xs[i := x]) [0..<length (xs[i := x])] = ?es[i := (x, i)]"
    by (simp add: update_zip u)
  also have "\<dots> = take i ?es @ (x, i) # drop (Suc i) ?es"
    using upd_conv_take_nth_drop[OF len(1)] by simp
  finally have es': "zip (xs[i := x]) [0..<length (xs[i := x])] = take i ?es @ (x, i) # drop (Suc i) ?es" .
  have "?es ! j \<in> set (drop (Suc i) ?es)"
    using assms len by (auto simp: in_set_conv_nth intro!: exI[of _ "j - Suc i"])
  with ej assms have ex: "\<exists>e2 \<in> set (drop (Suc i) ?es).
      getItemKey (fst e2) (snd e2) = getItemKey (fst (xs ! i, i)) (snd (xs ! i, i))"
    by force
  have "foldl itemStep [] (take i ?es @ (x, i) # drop (Suc i) ?es)
      = foldl itemStep [] (take i ?es @ (xs ! i, i) # drop (Suc i) ?es)"
    by (rule foldl_itemStep_shadowed) (use assms ex in simp_all)
  then show ?thesis
    unfolding collectItems_def es' using es by simp
qed

lemma getItemKey_named: "hasName x \<Longrightarrow> getItemKey x i = itemName x"
  by (cases x) auto

lemma collectItems_keys:
  "set (map fst (collectItems xs)) = (\<lambda>e. getItemKey (fst e) (snd e)) ` set (zip xs [0..<length xs])"
  unfolding collectItems_def foldl_itemStep_keys set_foldl_setAdd by simp

lemma collectItems_keys_named:
  assumes "list_all hasName xs"
  shows "set (map fst (collectItems xs)) = itemName ` set xs"
proof -
  have "(\<lambda>e. getItemKey (fst e) (snd e)) ` set (zip xs [0..<length xs])
      = (\<lambda>e. itemName (fst e)) ` set (zip xs [0..<length xs])"
  proof (rule image_cong[OF refl])
    fix e assume "e \<in> set (zip xs [0..<length xs])"
    then have "fst e \<in> set xs" by (metis prod.collapse set_zip_leftD)
    with assms show "getItemKey (fst e) (snd e) = itemName (fst e)"
      by (simp add: list_all_iff getItemKey_named)
  qed
  also have "\<dots> = itemName ` fst ` set (zip xs [0..<length xs])" by (simp add: image_image)
  also have "fst ` set (zip xs [0..<length xs]) = set xs"
    using map_fst_zip[of xs "[0..<length xs]"] by (metis length_upt minus_nat.diff_0 order_refl set_map)
  finally show ?thesis unfolding collectItems_keys .
qed

lemma compareArrays_reordered:
  assumes named: "list_all hasName bs"
    and inj: "inj_on itemName (set bs)"
    and same: "set ts = set bs"
  shows "compareArrays bs ts path = []"
proof -
  from named same have named': "list_all hasName ts" by (simp add: list_all_iff)
  have keys: "set (map fst (collectItems ts)) = set (map fst (collectItems bs))"
    using collectItems_keys_named[OF named] collectItems_keys_named[OF named'] same by simp
  have 1: "map_of (collectItems ts) (fst e) \<noteq> None" if "e \<in> set (collectItems bs)" for e
  proof -
    from that have "fst e \<in> set (map fst (collectItems bs))" by simp
    with keys have "fst e \<in> fst ` set (collectItems ts)" by simp
    then show ?thesis by (simp add: map_of_eq_None_iff)
  qed
  have 2: "map_of (collectItems bs) (fst e) \<noteq> None" if "e \<in> set (collectItems ts)" for e
  proof -
    from that have "fst e \<in> set (map fst (collectItems ts))" by simp
    with keys have "fst e \<in> fst ` set (collectItems bs)" by simp
    then show ?thesis by (simp add: map_of_eq_None_iff)
  qed
  have 3: "findJsonDifferences (fst (snd e)) (fst te) p = []"
    if e: "e \<in> set (collectItems bs)" and te: "map_of (collectItems ts) (fst e) = Some te" for e te p
  proof -
    from e have "(fst e, snd e) \<in> set (collectItems bs)" by simp
    from collectItems_entry[OF this]
    have b: "fst (snd e) \<in> set bs" "fst e = getItemKey (fst (snd e)) (snd (snd e))" by simp_all
    from te have "(fst e, te) \<in> set (collectItems ts)" by (rule map_of_SomeD)
    from collectItems_entry[OF this]
    have t: "fst te \<in> set ts" "fst e = getItemKey (fst te) (snd te)" by simp_all
    from b(1) named have "hasName (fst (snd e))" by (simp add: list_all_iff)
    with b(2) have nb: "fst e = itemName (fst (snd e))" by (simp only: getItemKey_named)
    from t(1) named' have "hasName (fst te)" by (simp add: list_all_iff)
    with t(2) have nt: "fst e = itemName (fst te)" by (simp only: getItemKey_named)
    from t(1) same have tb: "fst te \<in> set bs" by simp
    from nb nt have "itemName (fst (snd e)) = itemName (fst te)" by simp
    then have "fst (snd e) = fst te" by (rule inj_onD[OF inj _ b(1) tb])
    then show ?thesis by (simp add: findJsonDifferences_same)
  qed
  have removed: "concat (map (\<lambda>e.
           if map_of (collectItems ts) (fst e) = None
           then [''- '' @ path @ ''['' @ fst e @ '']: '' @ formatValue (fst (snd e))] else [])
         (collectItems bs)) = []"
    by (rule concat_map_Nil) (simp add: 1)
  have added: "concat (map (\<lambda>e.
           if map_of (collectItems bs) (fst e) = None
           then [''+ '' @ path @ ''['' @ fst e @ '']: '' @ formatValue (fst (snd e))] else [])
         (collectItems ts)) = []"
    by (rule concat_map_Nil) (simp add: 2)
  have modified: "concat (map (\<lambda>e.
           case map_of (collectItems ts) (fst e) of
             None \<Rightarrow> []
           | Some targetEntry \<Rightarrow>
               findJsonDifferences (fst (snd e)) (fst targetEntry) (path @ ''['' @ fst e @ '']''))
         (collectItems bs)) = []"
  proof (rule concat_map_Nil)
    fix e assume e: "e \<in> set (collectItems bs)"
    show "(case map_of (collectItems ts) (fst e) of
             None \<Rightarrow> []
           | Some targetEntry \<Rightarrow>
               findJsonDifferences (fst (snd e)) (fst targetEntry) (path @ ''['' @ fst e @ '']'')) = []"
      using 3[OF e] by (cases "map_of (collectItems ts) (fst e)") simp_all
  qed
  show ?thesis
    unfolding compareArrays.simps Let_def removed added modified by simp
qed

lemma typeof_differs:
  assumes "base \<noteq> JNull" "target \<noteq> JNull" "typeof base \<noteq> typeof target"
  shows "findJsonDifferences base target path =
    [''- '' @ orRoot path @ '': '' @ formatValue base, ''+ '' @ orRoot path @ '': '' @ formatValue target]"
  using assms by (simp add: findJsonDifferences.simps)

lemma foldl_upd_later:
  assumes "\<exists>e2 \<in> set rest. key e2 = k"
  shows "\<exists>e3 \<in> set rest. foldl (\<lambda>f e. f(key e \<mapsto> e)) f rest k = Some e3"
  using assms
proof (induction rest rule: rev_induct)
  case Nil
  then show ?case by simp
next
  case (snoc e rest)
  show ?case
  proof (cases "key e = k")
    case True
    then show ?thesis by simp
  next
    case False
    with snoc.prems have "\<exists>e2 \<in> set rest. key e2 = k" by auto
    from snoc.IH[OF this] False show ?thesis by auto
  qed
qed

lemma collectItems_not_shadowed:
  assumes "i < j" "j < length xs"
    and "getItemKey (xs ! i) i = getItemKey (xs ! j) j"
  shows "map_of (collectItems xs) (getItemKey (xs ! i) i) \<noteq> Some (xs ! i, i)"
proof -
  let ?es = "zip xs [0..<length xs]"
  let ?k = "getItemKey (xs ! i) i"
  let ?upd = "\<lambda>f e. f(getItemKey (fst e) (snd e) \<mapsto> e)"
  have len: "j < length ?es" using assms by simp
  have "?es ! j \<in> set (drop (Suc i) ?es)"
    using assms len by (auto simp: in_set_conv_nth intro!: exI[of _ "j - Suc i"])
  moreover have "getItemKey (fst (?es ! j)) (snd (?es ! j)) = ?k" using assms by simp
  ultimately have ex: "\<exists>e2 \<in> set (drop (Suc i) ?es). getItemKey (fst e2) (snd e2) = ?k" by blast
  have "map_of (collectItems xs) ?k = foldl ?upd Map.empty (take (Suc i) ?es @ drop (Suc i) ?es) ?k"
    by (simp add: collectItems_def foldl_itemStep_map_of)
  also have "\<dots> = foldl ?upd (foldl ?upd Map.empty (take (Suc i) ?es)) (drop (Suc i) ?es) ?k"
    by (simp only: foldl_append)
  finally obtain e3 where e3: "e3 \<in> set (drop (Suc i) ?es)" "map_of (collectItems xs) ?k = Some e3"
    using foldl_upd_later[OF ex, of "foldl ?upd Map.empty (take (Suc i) ?es)"] by auto
  from e3(1) obtain m where "m < length ?es - Suc i" "e3 = ?es ! (Suc i + m)"
    by (auto simp: in_set_conv_nth)
  then have "snd e3 = Suc i + m" by simp
  then have "e3 \<noteq> (xs ! i, i)" by auto
  with e3(2) show ?thesis by simp
qed

section \<open>Properties of the comparators\<close>

lemma foldl_mapSet_lookup:
  "map_of (foldl (\<lambda>m ep. case g ep of None \<Rightarrow> m | Some v \<Rightarrow> mapSet m ep v) m0 eps) e
     = (if e \<in> set eps then (case g e of None \<Rightarrow> map_of m0 e | Some v \<Rightarrow> Some v) else map_of m0 e)"
  by (induction eps arbitrary: m0) (auto simp: mapSet_def update_conv' split: option.splits)

lemma foldl_append_filter:
  "distinct eps \<Longrightarrow>
   filter (\<lambda>d. endpoint d = e)
     (foldl (\<lambda>ds ep. case g ep of None \<Rightarrow> ds | Some v \<Rightarrow> ds @ [\<lparr>endpoint = ep, diff = v\<rparr>]) ds0 eps)
     = filter (\<lambda>d. endpoint d = e) ds0
       @ (if e \<in> set eps then (case g e of None \<Rightarrow> [] | Some v \<Rightarrow> [\<lparr>endpoint = e, diff = v\<rparr>]) else [])"
  by (induction eps arbitrary: ds0) (auto split: option.splits)

lemma compareResults_lookup:
  "map_of (compareResults branchFiles baseFiles) e
     = (if e \<in> set (map fst branchFiles) \<union> set (map fst baseFiles)
        then resultEntry branchFiles baseFiles e else None)"
proof -
  have "compareResults branchFiles baseFiles
      = foldl (\<lambda>m ep. case resultEntry branchFiles baseFiles ep of None \<Rightarrow> m | Some v \<Rightarrow> mapSet m ep v) []
          (newSet (map fst branchFiles @ map fst baseFiles))"
    unfolding compareResults_def Let_def resultEntry_def
    by (rule arg_cong[where f = "\<lambda>f. foldl f [] (newSet (map fst branchFiles @ map fst baseFiles))"])
       (auto simp: fun_eq_iff split: option.splits)
  then show ?thesis
    by (simp add: foldl_mapSet_lookup set_newSet split: option.splits)
qed

lemma compareProbeResults_filter:
  "filter (\<lambda>d. endpoint d = e) (compareProbeResults toFiles parse baseResult targetResult)
     = (if e \<in> set (map fst (toFiles baseResult)) \<union> set (map fst (toFiles targetResult))
        then (case probeEntry parse (toFiles baseResult) (toFiles targetResult) e of
                None \<Rightarrow> [] | Some v \<Rightarrow> [\<lparr>endpoint = e, diff = v\<rparr>])
        else [])"
proof -
  let ?eps = "newSet (map fst (toFiles baseResult) @ map fst (toFiles targetResult))"
  have "compareProbeResults toFiles parse baseResult targetResult
      = foldl (\<lambda>ds ep. case probeEntry parse (toFiles baseResult) (toFiles targetResult) ep of
                 None \<Rightarrow> ds | Some v \<Rightarrow> ds @ [\<lparr>endpoint = ep, diff = v\<rparr>]) [] ?eps"
    unfolding compareProbeResults_def Let_def probeEntry_def
    by (rule arg_cong[where f = "\<lambda>f. foldl f [] ?eps"])
       (auto simp: fun_eq_iff split: option.splits)
  then show ?thesis
    by (simp add: foldl_append_filter[OF distinct_newSet] set_newSet)
qed

section \<open>Properties of the runner\<close>

lemma createWorktree_events:
  "createWorktree sys ref path w = (ok, w', evs) \<Longrightarrow> evs = [EvCreateWorktree ref path ok]"
  by (auto simp: createWorktree_def split: prod.splits sum.splits)

lemma checkout_events:
  "checkout sys ref w = (r, w', evs) \<Longrightarrow> evs = [EvCheckout ref]"
  by (auto simp: checkout_def split: prod.splits sum.splits)

lemma runBuild_events:
  "runBuild sys dir inp w = (r, w', evs) \<Longrightarrow> list_all isSh evs"
  by (auto simp: runBuild_def split: if_splits prod.splits sum.splits)

lemma probeWithConfig_events:
  "probeWithConfig sys config dir w = (r, w', evs) \<Longrightarrow> evs = [EvProbe config dir r]"
  by (auto simp: probeWithConfig_def split: prod.splits)

lemma release_events:
  "(if useWorktree then removeWorktree sys path w else checkoutPrevious sys w) = (w', evs)
   \<Longrightarrow> evs = [if useWorktree then EvRemoveWorktree path else EvCheckoutPrevious]"
  by (auto simp: removeWorktree_def checkoutPrevious_def split: prod.splits if_splits)

lemma tryBlock_shape:
  assumes "tryBlock sys config ctx result branchFiles path w = (out, useWorktree, w', evs)"
  shows "\<exists>acq shs prb. evs = EvCreateWorktree (compareRef ctx) path useWorktree # acq @ shs @ prb
     \<and> (acq = [] \<or> acq = [EvCheckout (compareRef ctx)]) \<and> list_all isSh shs
     \<and> (case out of
           Inl e \<Rightarrow> prb = [] \<or> (\<exists>d. prb = [EvProbe config d (Inl e)])
         | Inr res \<Rightarrow> \<exists>d br. prb = [EvProbe config d (Inr br)]
               \<and> (hasDifferences res \<longleftrightarrow> diffs res \<noteq> [])
               \<and> (truthy (error br) \<longrightarrow> hasDifferences res))"
proof -
  obtain ok wa eva where cw: "createWorktree sys (compareRef ctx) path w = (ok, wa, eva)"
    by (cases "createWorktree sys (compareRef ctx) path w") auto
  have eva: "eva = [EvCreateWorktree (compareRef ctx) path ok]"
    using createWorktree_events[OF cw] .
  obtain rb wb evb where
    co: "(if \<not> ok then checkout sys (compareRef ctx) wa else (Inr (), wa, [])) = (rb, wb, evb)"
    by (cases "(if \<not> ok then checkout sys (compareRef ctx) wa else (Inr (), wa, []))") auto
  have evb: "evb = [] \<or> evb = [EvCheckout (compareRef ctx)]"
    using co checkout_events[of sys "compareRef ctx" wa rb wb evb] by (auto split: if_splits)
  show ?thesis
  proof (cases rb)
    case (Inl e)
    with assms cw co have "out = Inl e" "useWorktree = ok" "evs = eva @ evb"
      by (simp_all add: tryBlock_def)
    with eva evb show ?thesis
      by (intro exI[of _ evb] exI[of _ "[]"]) auto
  next
    case (Inr u)
    let ?dir = "if ok then path else workDir ctx"
    obtain rc wc evc where rb': "runBuild sys ?dir (inputs ctx) wb = (rc, wc, evc)"
      by (cases "runBuild sys ?dir (inputs ctx) wb") auto
    have evc: "list_all isSh evc" using runBuild_events[OF rb'] .
    show ?thesis
    proof (cases rc)
      case (Inl e)
      with assms cw co Inr rb' have "out = Inl e" "useWorktree = ok" "evs = eva @ evb @ evc"
        by (simp_all add: tryBlock_def)
      with eva evb evc show ?thesis
        by (intro exI[of _ evb] exI[of _ evc] exI[of _ "[]"]) auto
    next
      case Inr2: (Inr u2)
      obtain rd wd evd where pr: "probeWithConfig sys config ?dir wc = (rd, wd, evd)"
        by (cases "probeWithConfig sys config ?dir wc") auto
      have evd: "evd = [EvProbe config ?dir rd]" using probeWithConfig_events[OF pr] .
      show ?thesis
      proof (cases rd)
        case (Inl e)
        with assms cw co Inr Inr2 rb' pr
        have "out = Inl e" "useWorktree = ok" "evs = eva @ evb @ evc @ evd"
          by (simp_all add: tryBlock_def)
        with eva evb evc evd Inl show ?thesis
          by (intro exI[of _ evb] exI[of _ evc] exI[of _ evd]) auto
      next
        case Inr3: (Inr baseResult)
        from assms cw co Inr Inr2 rb' pr Inr3
        have u: "useWorktree = ok" "evs = eva @ evb @ evc @ evd"
          by (simp_all add: tryBlock_def Let_def split: if_splits)
        from assms cw co Inr Inr2 rb' pr Inr3
        obtain res where res: "out = Inr res" "hasDifferences res \<longleftrightarrow> diffs res \<noteq> []"
          "truthy (error baseResult) \<longrightarrow> hasDifferences res"
          by (auto simp add: tryBlock_def Let_def mapSet_def split: if_splits)
        with u eva evb evc evd Inr3 show ?thesis
          by (intro exI[of _ evb] exI[of _ evc] exI[of _ evd]) auto
      qed
    qed
  qed
qed

lemma isSh_other:
  "isSh ev \<Longrightarrow> \<not> isRelease ev \<and> \<not> probeError ev \<and> \<not> isCreate ev"
  by (cases ev) auto

lemma run_cases:
  assumes run: "runSingleConfigTest sys config ctx w = (out, w', evs)"
  obtains
    (probe_throws) e where "probe sys config (workDir ctx) w = (Inl e, w')" "out = Inl e"
      "evs = [EvProbe config (workDir ctx) (Inl e)]"
  | (probe_error) br res where "probe sys config (workDir ctx) w = (Inr br, w')" "truthy (error br)"
      "out = Inr res" "hasDifferences res" "map fst (diffs res) = [''error'']"
      "evs = [EvProbe config (workDir ctx) (Inr br)]"
  | (baseline) br w1 res0 useWorktree w2 ev2 where
      "probe sys config (workDir ctx) w = (Inr br, w1)" "\<not> truthy (error br)"
      "tryBlock sys config ctx res0 (probeResultToFiles sys br)
         (pathJoin sys [workDir ctx, ''.conformance-base'']) w1 = (out, useWorktree, w2, ev2)"
      "evs = EvProbe config (workDir ctx) (Inr br) # ev2 @
         [if useWorktree then EvRemoveWorktree (pathJoin sys [workDir ctx, ''.conformance-base''])
          else EvCheckoutPrevious]"
proof -
  obtain r w1 where p: "probe sys config (workDir ctx) w = (r, w1)"
    by (cases "probe sys config (workDir ctx) w") auto
  show thesis
  proof (cases r)
    case (Inl e)
    with run p show thesis
      by (intro probe_throws[of e]) (simp_all add: runSingleConfigTest_def probeWithConfig_def)
  next
    case (Inr br)
    show thesis
    proof (cases "truthy (error br)")
      case True
      with run p Inr show thesis
        by (intro probe_error[of br]) (auto simp add: runSingleConfigTest_def probeWithConfig_def mapSet_def)
    next
      case False
      let ?path = "pathJoin sys [workDir ctx, ''.conformance-base'']"
      let ?res0 = "\<lparr>configName = name config, resultTransport = transportName (transport config),
                     branchTime = now sys w1 - now sys w, baseTime = 0, hasDifferences = False, diffs = []\<rparr>"
      obtain o2 useWorktree w2 ev2 where
        tb: "tryBlock sys config ctx ?res0 (probeResultToFiles sys br) ?path w1 = (o2, useWorktree, w2, ev2)"
        by (cases "tryBlock sys config ctx ?res0 (probeResultToFiles sys br) ?path w1") auto
      obtain w3 ev3 where
        rel: "(if useWorktree then removeWorktree sys ?path w2 else checkoutPrevious sys w2) = (w3, ev3)"
        by (cases "(if useWorktree then removeWorktree sys ?path w2 else checkoutPrevious sys w2)") auto
      from run p Inr False tb rel
      have "out = o2" "evs = [EvProbe config (workDir ctx) (Inr br)] @ ev2 @ ev3"
        by (simp_all add: runSingleConfigTest_def probeWithConfig_def Let_def)
      with release_events[OF rel] tb p Inr False show thesis
        by (intro baseline[of br w1 ?res0 useWorktree w2 ev2]) simp_all
    qed
  qed
qed

lemma throwing_run_not_persisted:
  assumes "runSingleConfigTest sys config ctx w = (Inl e, w1, ev1)"
  shows "runAllTests_step sys ctx (results, w, evs) config = (results @ [failedResult config e], w1, evs @ ev1)"
  using assms by (simp add: runAllTests_step_def)

section \<open>Properties of the choice of the comparison ref\<close>

lemma findPreviousTag_events:
  "findPreviousTag sys tag w = (r, w', evs) \<Longrightarrow> evs = [EvGit [''tag'', ''--sort=-v:refname'']]"
  by (auto simp: findPreviousTag_def git_def Let_def split: prod.splits sum.splits option.splits if_splits)

lemma getFirstCommit_events:
  "getFirstCommit sys w = (r, w', evs) \<Longrightarrow> evs = [EvGit [''rev-list'', ''--max-parents=0'', ''HEAD'']]"
  by (auto simp: getFirstCommit_def git_def split: prod.splits sum.splits)

lemma findMainBranch_events:
  "findMainBranch sys w = (r, w', evs) \<Longrightarrow>
     evs \<noteq> [] \<and> list_all (\<lambda>ev. \<not> isTagLookup ev \<and> \<not> isMergeBase ev) evs"
  by (auto simp: findMainBranch_def getFirstCommit_def git_def split: prod.splits sum.splits)

lemma getMergeBase_events:
  "getMergeBase sys ref w = (r, w', evs) \<Longrightarrow> evs = [EvGit [''merge-base'', ''HEAD'', ref]]"
  by (auto simp: getMergeBase_def git_def split: prod.splits sum.splits)

section \<open>The claims\<close>

text \<open>
  C1 (amended). Exactly one strategy determines the comparison ref, and the order of
  priority is: the explicit ref when one is given (no git command runs at all); otherwise,
  on a tag push, the previous tag, falling back to the first commit (the tag list is read
  and no merge-base is computed); otherwise the merge-base with the main branch (the tag
  list is not read).
\<close>

theorem compare_ref_priority:
  assumes "determineCompareRef sys explicitRef githubRef w = (out, w', evs)"
  shows "if truthy explicitRef then
           out = Inr (orEmpty explicitRef) \<and> evs = [] \<and> w' = w
         else if isTagRef githubRef then
           (\<exists>rest. evs = EvGit [''tag'', ''--sort=-v:refname''] # rest) \<and> \<not> list_ex isMergeBase evs
           \<and> (case findPreviousTag sys (drop 10 (orEmpty githubRef)) w of
                 (previousTag, w1, ev1) \<Rightarrow>
                   if truthy previousTag \<and> previousTag \<noteq> Some (drop 10 (orEmpty githubRef))
                   then out = Inr (orEmpty previousTag)
                   else out = fst (getFirstCommit sys w1))
         else
           \<not> list_ex isTagLookup evs
           \<and> (case findMainBranch sys w of
                 (Inl e, w1, ev1) \<Rightarrow> out = Inl e \<and> \<not> list_ex isMergeBase evs
               | (Inr baseRef, w1, ev1) \<Rightarrow>
                   out = Inr (fst (getMergeBase sys baseRef w1))
                   \<and> evs = ev1 @ [EvGit [''merge-base'', ''HEAD'', baseRef]])"
proof (cases "truthy explicitRef")
  case True
  with assms show ?thesis by (simp add: determineCompareRef_def)
next
  case False
  show ?thesis
  proof (cases "isTagRef githubRef")
    case True
    obtain pt w1 ev1 where pt: "findPreviousTag sys (drop 10 (orEmpty githubRef)) w = (pt, w1, ev1)"
      by (cases "findPreviousTag sys (drop 10 (orEmpty githubRef)) w") auto
    note ev1 = findPreviousTag_events[OF pt]
    obtain fc w2 ev2 where fc: "getFirstCommit sys w1 = (fc, w2, ev2)"
      by (cases "getFirstCommit sys w1") auto
    note ev2 = getFirstCommit_events[OF fc]
    from assms False True pt fc ev1 ev2 show ?thesis
      by (auto simp: determineCompareRef_def Let_def split: if_splits)
  next
    case nt: False
    obtain mb w1 ev1 where mb: "findMainBranch sys w = (mb, w1, ev1)"
      by (cases "findMainBranch sys w") auto
    note ev1 = findMainBranch_events[OF mb]
    show ?thesis
    proof (cases mb)
      case (Inl e)
      with assms False nt mb ev1 show ?thesis
        by (auto simp: determineCompareRef_def list_all_iff list_ex_iff)
    next
      case (Inr baseRef)
      obtain m w2 ev2 where gm: "getMergeBase sys baseRef w1 = (m, w2, ev2)"
        by (cases "getMergeBase sys baseRef w1") auto
      note ev2 = getMergeBase_events[OF gm]
      from assms False nt mb Inr gm ev1 ev2 show ?thesis
        by (auto simp: determineCompareRef_def list_all_iff list_ex_iff)
    qed
  qed
qed

text \<open>
  A repository with the tags v2.0.0, v1.5.0 and v1.0.0, whose merge-base with
  \<^verbatim>\<open>origin/main\<close> is def456: a tag push of v2.0.0 without an explicit ref is compared with
  v1.5.0, and \<^verbatim>\<open>git merge-base\<close> does not run.
\<close>

theorem compare_ref_priority_witness:
  "determineCompareRef (demoSys False False True True) None (Some ''refs/tags/v2.0.0'') 0
     = (Inr ''v1.5.0'', 1, [EvGit [''tag'', ''--sort=-v:refname'']])
   \<and> \<not> truthy None \<and> isTagRef (Some ''refs/tags/v2.0.0'')
   \<and> \<not> list_ex isMergeBase [EvGit [''tag'', ''--sort=-v:refname'']]
   \<and> findPreviousTag (demoSys False False True True) ''v2.0.0'' 0
       = (Some ''v1.5.0'', 1, [EvGit [''tag'', ''--sort=-v:refname'']])"
proof -
  have run: "determineCompareRef (demoSys False False True True) None (Some ''refs/tags/v2.0.0'') 0
     = (Inr ''v1.5.0'', 1, [EvGit [''tag'', ''--sort=-v:refname'']])"
    by code_simp
  have pt: "findPreviousTag (demoSys False False True True) ''v2.0.0'' 0
       = (Some ''v1.5.0'', 1, [EvGit [''tag'', ''--sort=-v:refname'']])"
    by code_simp
  have tag: "isTagRef (Some ''refs/tags/v2.0.0'')" by code_simp
  from compare_ref_priority[OF run] run pt tag show ?thesis by simp
qed

text \<open>
  As stated, with the merge-base tried first and the explicit ref last, the claim fails:
  in the same repository a run with the explicit ref v1.0.0 on a tag push of v2.0.0 answers
  v1.0.0 without running any git command, although the merge-base strategy would answer
  def456 and the tag strategy v1.5.0.
\<close>

theorem compare_ref_merge_base_first_counterexample:
  "determineCompareRef (demoSys False False True True) (Some ''v1.0.0'') (Some ''refs/tags/v2.0.0'') 0
     = (Inr ''v1.0.0'', 0, [])
   \<and> determineCompareRef (demoSys False False True True) None None 0
     = (Inr ''def456'', 2,
        [EvGit [''rev-parse'', ''--verify'', ''origin/main''], EvGit [''merge-base'', ''HEAD'', ''origin/main'']])
   \<and> determineCompareRef (demoSys False False True True) None (Some ''refs/tags/v2.0.0'') 0
     = (Inr ''v1.5.0'', 1, [EvGit [''tag'', ''--sort=-v:refname'']])"
proof -
  have "determineCompareRef (demoSys False False True True) (Some ''v1.0.0'') (Some ''refs/tags/v2.0.0'') 0
     = (Inr ''v1.0.0'', 0, [])"
    by code_simp
  moreover have "determineCompareRef (demoSys False False True True) None None 0
     = (Inr ''def456'', 2,
        [EvGit [''rev-parse'', ''--verify'', ''origin/main''], EvGit [''merge-base'', ''HEAD'', ''origin/main'']])"
    by code_simp
  moreover have "determineCompareRef (demoSys False False True True) None (Some ''refs/tags/v2.0.0'') 0
     = (Inr ''v1.5.0'', 1, [EvGit [''tag'', ''--sort=-v:refname'']])"
    by code_simp
  ultimately show ?thesis by simp
qed

text \<open>
  C2. The claim asks for the result of every configuration to be written to its file,
  also when the run throws. The write sits inside the \<^verbatim>\<open>try\<close> block after the run; the
  \<^verbatim>\<open>catch\<close> block only appends the failed result to the list. With a build command that
  fails, the batch returns the failed result and no file is written; with a build that
  succeeds, the same configuration is written.
\<close>

theorem thrown_run_is_not_persisted:
  "runAllTests (demoSys False False True False) demoCtx 0
     = ([failedResult demoConfig ''Error: sh failed with exit code 1''], 4,
        [EvProbe demoConfig ''/repo'' (Inr okProbe),
         EvCreateWorktree ''origin/main'' ''/repo/.conformance-base'' True,
         EvSh ''npm run build'' ''/repo/.conformance-base'',
         EvRemoveWorktree ''/repo/.conformance-base''])
   \<and> runAllTests (demoSys False False True True) demoCtx 0
     = ([\<lparr>configName = ''default'', resultTransport = ''stdio'', branchTime = 1, baseTime = 1,
          hasDifferences = False, diffs = []\<rparr>], 7,
        [EvProbe demoConfig ''/repo'' (Inr okProbe),
         EvCreateWorktree ''origin/main'' ''/repo/.conformance-base'' True,
         EvSh ''npm run build'' ''/repo/.conformance-base'',
         EvProbe demoConfig ''/repo/.conformance-base'' (Inr okProbe),
         EvRemoveWorktree ''/repo/.conformance-base'',
         EvMkdir ''/repo/.conformance-results'',
         EvWriteFile ''/repo/.conformance-results/default.json''
           \<lparr>configName = ''default'', resultTransport = ''stdio'', branchTime = 1, baseTime = 1,
            hasDifferences = False, diffs = []\<rparr>])"
proof -
  have "runAllTests (demoSys False False True False) demoCtx 0
     = ([failedResult demoConfig ''Error: sh failed with exit code 1''], 4,
        [EvProbe demoConfig ''/repo'' (Inr okProbe),
         EvCreateWorktree ''origin/main'' ''/repo/.conformance-base'' True,
         EvSh ''npm run build'' ''/repo/.conformance-base'',
         EvRemoveWorktree ''/repo/.conformance-base''])"
    by code_simp
  moreover have "runAllTests (demoSys False False True True) demoCtx 0
     = ([\<lparr>configName = ''default'', resultTransport = ''stdio'', branchTime = 1, baseTime = 1,
          hasDifferences = False, diffs = []\<rparr>], 7,
        [EvProbe demoConfig ''/repo'' (Inr okProbe),
         EvCreateWorktree ''origin/main'' ''/repo/.conformance-base'' True,
         EvSh ''npm run build'' ''/repo/.conformance-base'',
         EvProbe demoConfig ''/repo/.conformance-base'' (Inr okProbe),
         EvRemoveWorktree ''/repo/.conformance-base'',
         EvMkdir ''/repo/.conformance-results'',
         EvWriteFile ''/repo/.conformance-results/default.json''
           \<lparr>configName = ''default'', resultTransport = ''stdio'', branchTime = 1, baseTime = 1,
            hasDifferences = False, diffs = []\<rparr>])"
    by code_simp
  ultimately show ?thesis by simp
qed

text \<open>
  C3. When the probe of the current branch comes back with an error set, the run returns
  a result with \<open>hasDifferences\<close> true whose diff map has the single key \<^verbatim>\<open>error\<close>, and the
  probe is the only call the run makes: no worktree is created and nothing is checked out.
  An error counts as set when the source's test \<^verbatim>\<open>if (branchResult.error)\<close> passes.
\<close>

theorem probe_failure_short_circuits:
  assumes "probe sys config (workDir ctx) w = (Inr branchResult, w1)"
    and "truthy (error branchResult)"
  shows "\<exists>result. runSingleConfigTest sys config ctx w
           = (Inr result, w1, [EvProbe config (workDir ctx) (Inr branchResult)])
         \<and> hasDifferences result \<and> map fst (diffs result) = [''error'']"
  using assms by (simp add: runSingleConfigTest_def probeWithConfig_def mapSet_def)

theorem probe_failure_short_circuits_witness:
  "probe (demoSys True False True True) demoConfig (workDir demoCtx) 0 = (Inr failedProbe, 1)
   \<and> truthy (error failedProbe)
   \<and> (\<exists>result. runSingleConfigTest (demoSys True False True True) demoConfig demoCtx 0
           = (Inr result, 1, [EvProbe demoConfig (workDir demoCtx) (Inr failedProbe)])
         \<and> hasDifferences result \<and> map fst (diffs result) = [''error''])"
proof -
  have h1: "probe (demoSys True False True True) demoConfig (workDir demoCtx) 0 = (Inr failedProbe, 1)"
    by (simp add: demoSys_def demoCtx_def)
  have h2: "truthy (error failedProbe)" by (simp add: failedProbe_def)
  from probe_failure_short_circuits[OF h1 h2] h1 h2 show ?thesis by simp
qed

text \<open>
  C4. In the result a run returns, \<open>hasDifferences\<close> is true exactly when the diff map is
  not empty or one of the probes made during the run came back with an error set.
\<close>

theorem hasDifferences_iff:
  assumes "runSingleConfigTest sys config ctx w = (Inr res, w', evs)"
  shows "hasDifferences res \<longleftrightarrow> (diffs res \<noteq> [] \<or> list_ex probeError evs)"
  using assms
proof (cases rule: run_cases)
  case (probe_throws e)
  then show ?thesis by simp
next
  case (probe_error br res')
  then show ?thesis by auto
next
  case (baseline br w1 res0 useWorktree w2 ev2)
  from tryBlock_shape[OF baseline(3)] obtain acq shs d br' where
    ev2: "ev2 = EvCreateWorktree (compareRef ctx) (pathJoin sys [workDir ctx, ''.conformance-base'']) useWorktree
            # acq @ shs @ [EvProbe config d (Inr br')]"
    and acq: "acq = [] \<or> acq = [EvCheckout (compareRef ctx)]" and shs: "list_all isSh shs"
    and hd: "hasDifferences res \<longleftrightarrow> diffs res \<noteq> []" and pe: "truthy (error br') \<longrightarrow> hasDifferences res"
    by auto
  have "\<not> list_ex probeError shs" using shs isSh_other
    by (auto simp: list_all_iff list_ex_iff)
  moreover have "\<not> list_ex probeError acq" using acq by auto
  ultimately have "list_ex probeError evs \<longleftrightarrow> truthy (error br')"
    using baseline(2,4) ev2 by (auto simp: list_ex_iff)
  with hd pe show ?thesis by auto
qed

text \<open>A run whose baseline probe fails: the worktree is built, probed and removed.\<close>

theorem hasDifferences_iff_witness:
  "runSingleConfigTest (demoSys False True True True) demoConfig demoCtx 0
     = (Inr \<lparr>configName = ''default'', resultTransport = ''stdio'', branchTime = 1, baseTime = 1,
              hasDifferences = True,
              diffs = [(''error'', ''Base ref probe failed: Connection closed'')]\<rparr>,
        5,
        [EvProbe demoConfig ''/repo'' (Inr okProbe),
         EvCreateWorktree ''origin/main'' ''/repo/.conformance-base'' True,
         EvSh ''npm run build'' ''/repo/.conformance-base'',
         EvProbe demoConfig ''/repo/.conformance-base'' (Inr failedProbe),
         EvRemoveWorktree ''/repo/.conformance-base''])
   \<and> list_ex probeError
        [EvProbe demoConfig ''/repo'' (Inr okProbe),
         EvCreateWorktree ''origin/main'' ''/repo/.conformance-base'' True,
         EvSh ''npm run build'' ''/repo/.conformance-base'',
         EvProbe demoConfig ''/repo/.conformance-base'' (Inr failedProbe),
         EvRemoveWorktree ''/repo/.conformance-base'']"
proof -
  have run: "runSingleConfigTest (demoSys False True True True) demoConfig demoCtx 0
     = (Inr \<lparr>configName = ''default'', resultTransport = ''stdio'', branchTime = 1, baseTime = 1,
              hasDifferences = True,
              diffs = [(''error'', ''Base ref probe failed: Connection closed'')]\<rparr>,
        5,
        [EvProbe demoConfig ''/repo'' (Inr okProbe),
         EvCreateWorktree ''origin/main'' ''/repo/.conformance-base'' True,
         EvSh ''npm run build'' ''/repo/.conformance-base'',
         EvProbe demoConfig ''/repo/.conformance-base'' (Inr failedProbe),
         EvRemoveWorktree ''/repo/.conformance-base''])"
    by code_simp
  from hasDifferences_iff[OF run] run show ?thesis by (simp add: failedProbe_def)
qed

text \<open>
  C5. A run that reaches the acquisition of the baseline (it tried to create the worktree)
  ends with a release, whether it returns or throws: the removal of the worktree when the
  worktree was created, the restoration of the previous checkout otherwise; and no other
  release happens before it.
\<close>

theorem release_exactly_once:
  assumes "runSingleConfigTest sys config ctx w = (out, w', evs)"
    and "EvCreateWorktree r p ok \<in> set evs"
  shows "\<exists>pre. evs = pre @ [if ok then EvRemoveWorktree p else EvCheckoutPrevious]
           \<and> list_all (\<lambda>ev. \<not> isRelease ev) pre"
  using assms(1)
proof (cases rule: run_cases)
  case (probe_throws e)
  with assms(2) show ?thesis by simp
next
  case (probe_error br res')
  with assms(2) show ?thesis by simp
next
  case (baseline br w1 res0 useWorktree w2 ev2)
  let ?path = "pathJoin sys [workDir ctx, ''.conformance-base'']"
  from tryBlock_shape[OF baseline(3)] obtain acq shs prb where
    ev2: "ev2 = EvCreateWorktree (compareRef ctx) ?path useWorktree # acq @ shs @ prb"
    and acq: "acq = [] \<or> acq = [EvCheckout (compareRef ctx)]" and shs: "list_all isSh shs"
    and c: "case out of
           Inl e \<Rightarrow> prb = [] \<or> (\<exists>d. prb = [EvProbe config d (Inl e)])
         | Inr res \<Rightarrow> \<exists>d br. prb = [EvProbe config d (Inr br)]
               \<and> (hasDifferences res \<longleftrightarrow> diffs res \<noteq> [])
               \<and> (truthy (error br) \<longrightarrow> hasDifferences res)"
    by blast
  from c have prb: "prb = [] \<or> (\<exists>d x. prb = [EvProbe config d x])"
    by (cases out) auto
  have nshs: "\<forall>ev\<in>set shs. \<not> isRelease ev \<and> \<not> isCreate ev"
    using shs isSh_other by (auto simp: list_all_iff)
  have nacq: "\<forall>ev\<in>set acq. \<not> isRelease ev \<and> \<not> isCreate ev"
    using acq by auto
  have nprb: "\<forall>ev\<in>set prb. \<not> isRelease ev \<and> \<not> isCreate ev"
    using prb by auto
  have "EvCreateWorktree r p ok \<notin> set (acq @ shs @ prb)"
    using nshs nacq nprb by fastforce
  with assms(2) baseline(4) ev2
  have same: "p = ?path" "ok = useWorktree" by (auto split: if_splits)
  have "list_all (\<lambda>ev. \<not> isRelease ev) (EvProbe config (workDir ctx) (Inr br) # ev2)"
    using ev2 nshs nacq nprb by (auto simp: list_all_iff)
  with baseline(4) same show ?thesis
    by (intro exI[of _ "EvProbe config (workDir ctx) (Inr br) # ev2"]) simp
qed

text \<open>A run in which no worktree can be created and the build then fails: the run throws,
  after restoring the previous checkout.\<close>

theorem release_exactly_once_witness:
  "runSingleConfigTest (demoSys False False False False) demoConfig demoCtx 0
     = (Inl ''Error: sh failed with exit code 1'', 5,
        [EvProbe demoConfig ''/repo'' (Inr okProbe),
         EvCreateWorktree ''origin/main'' ''/repo/.conformance-base'' False,
         EvCheckout ''origin/main'', EvSh ''npm run build'' ''/repo'', EvCheckoutPrevious])
   \<and> EvCreateWorktree ''origin/main'' ''/repo/.conformance-base'' False
       \<in> set [EvProbe demoConfig ''/repo'' (Inr okProbe),
         EvCreateWorktree ''origin/main'' ''/repo/.conformance-base'' False,
         EvCheckout ''origin/main'', EvSh ''npm run build'' ''/repo'', EvCheckoutPrevious]
   \<and> (\<exists>pre. [EvProbe demoConfig ''/repo'' (Inr okProbe),
         EvCreateWorktree ''origin/main'' ''/repo/.conformance-base'' False,
         EvCheckout ''origin/main'', EvSh ''npm run build'' ''/repo'', EvCheckoutPrevious]
          = pre @ [EvCheckoutPrevious] \<and> list_all (\<lambda>ev. \<not> isRelease ev) pre)"
proof -
  have run: "runSingleConfigTest (demoSys False False False False) demoConfig demoCtx 0
     = (Inl ''Error: sh failed with exit code 1'', 5,
        [EvProbe demoConfig ''/repo'' (Inr okProbe),
         EvCreateWorktree ''origin/main'' ''/repo/.conformance-base'' False,
         EvCheckout ''origin/main'', EvSh ''npm run build'' ''/repo'', EvCheckoutPrevious])"
    by code_simp
  have mem: "EvCreateWorktree ''origin/main'' ''/repo/.conformance-base'' False
       \<in> set [EvProbe demoConfig ''/repo'' (Inr okProbe),
         EvCreateWorktree ''origin/main'' ''/repo/.conformance-base'' False,
         EvCheckout ''origin/main'', EvSh ''npm run build'' ''/repo'', EvCheckoutPrevious]"
    by simp
  from release_exactly_once[OF run mem] run mem show ?thesis by simp
qed

text \<open>
  C6. The claim asks for one removed and one added line whenever the two values are of
  different kinds. The code decides the kind by \<^verbatim>\<open>typeof\<close>, which gives \<^verbatim>\<open>object\<close> for an array
  and for a plain object alike, so an array against an object falls through to the
  key-by-key comparison of objects: an empty array against an empty object, and an array
  against the object with its indices as keys, are reported as equal.
\<close>

theorem array_versus_object_not_reported:
  "findJsonDifferences (JArr []) (JObj []) ''inputSchema.required'' = []
   \<and> findJsonDifferences (JArr [JStr ''a'']) (JObj [(''0'', JStr ''a'')]) ''inputSchema.required'' = []
   \<and> typeof (JArr []) = typeof (JObj []) \<and> isArray (JArr []) \<and> \<not> isArray (JObj [])"
proof -
  have "findJsonDifferences (JArr []) (JObj []) ''inputSchema.required'' = []" by code_simp
  moreover have "findJsonDifferences (JArr [JStr ''a'']) (JObj [(''0'', JStr ''a'')]) ''inputSchema.required'' = []"
    by code_simp
  ultimately show ?thesis by simp
qed

text \<open>
  C7 (amended). Two arrays with the same members, each carrying a string \<^verbatim>\<open>name\<close> and no two
  different members sharing a name, in any order and with any repetitions, have no
  differences at any path.
\<close>

theorem reorder_named_items_no_diff:
  assumes "list_all hasName bs" and "inj_on itemName (set bs)" and "set ts = set bs"
  shows "findJsonDifferences (JArr bs) (JArr ts) path = []"
  using compareArrays_reordered[OF assms] by (simp add: findJsonDifferences.simps)

theorem reorder_named_items_no_diff_witness:
  "list_all hasName [JObj [(''name'', JStr ''a''), (''v'', JNum ''1'')], JObj [(''name'', JStr ''b'')]]
   \<and> inj_on itemName (set [JObj [(''name'', JStr ''a''), (''v'', JNum ''1'')], JObj [(''name'', JStr ''b'')]])
   \<and> set [JObj [(''name'', JStr ''b'')], JObj [(''name'', JStr ''a''), (''v'', JNum ''1'')]]
       = set [JObj [(''name'', JStr ''a''), (''v'', JNum ''1'')], JObj [(''name'', JStr ''b'')]]
   \<and> findJsonDifferences
        (JArr [JObj [(''name'', JStr ''a''), (''v'', JNum ''1'')], JObj [(''name'', JStr ''b'')]])
        (JArr [JObj [(''name'', JStr ''b'')], JObj [(''name'', JStr ''a''), (''v'', JNum ''1'')]])
        ''tools'' = []"
proof -
  let ?bs = "[JObj [(''name'', JStr ''a''), (''v'', JNum ''1'')], JObj [(''name'', JStr ''b'')]]"
  let ?ts = "[JObj [(''name'', JStr ''b'')], JObj [(''name'', JStr ''a''), (''v'', JNum ''1'')]]"
  have h1: "list_all hasName ?bs" by simp
  have h2: "inj_on itemName (set ?bs)" by simp
  have h3: "set ?ts = set ?bs" by auto
  from reorder_named_items_no_diff[OF h1 h2 h3, of "''tools''"] h1 h2 h3 show ?thesis by blast
qed

text \<open>
  As stated, without the condition on shared names, the claim fails: two members named
  \<^verbatim>\<open>a\<close> that differ in another field, listed in the two orders, are reported as a change.
\<close>

theorem reorder_same_name_counterexample:
  "list_all hasName [JObj [(''name'', JStr ''a''), (''v'', JNum ''1'')], JObj [(''name'', JStr ''a''), (''v'', JNum ''2'')]]
   \<and> set [JObj [(''name'', JStr ''a''), (''v'', JNum ''2'')], JObj [(''name'', JStr ''a''), (''v'', JNum ''1'')]]
       = set [JObj [(''name'', JStr ''a''), (''v'', JNum ''1'')], JObj [(''name'', JStr ''a''), (''v'', JNum ''2'')]]
   \<and> findJsonDifferences
        (JArr [JObj [(''name'', JStr ''a''), (''v'', JNum ''1'')], JObj [(''name'', JStr ''a''), (''v'', JNum ''2'')]])
        (JArr [JObj [(''name'', JStr ''a''), (''v'', JNum ''2'')], JObj [(''name'', JStr ''a''), (''v'', JNum ''1'')]])
        ''tools'' = [''- tools[a].v: 2'', ''+ tools[a].v: 1'']"
proof -
  have "findJsonDifferences
        (JArr [JObj [(''name'', JStr ''a''), (''v'', JNum ''1'')], JObj [(''name'', JStr ''a''), (''v'', JNum ''2'')]])
        (JArr [JObj [(''name'', JStr ''a''), (''v'', JNum ''2'')], JObj [(''name'', JStr ''a''), (''v'', JNum ''1'')]])
        ''tools'' = [''- tools[a].v: 2'', ''+ tools[a].v: 1'']"
    by code_simp
  then show ?thesis by auto
qed

text \<open>
  C8. The structural diff is reflexive: diffing any value against itself at the empty path
  gives no difference line.
\<close>

theorem findJsonDifferences_reflexive: "findJsonDifferences x x [] = []"
  by (rule findJsonDifferences_same)

theorem findJsonDifferences_reflexive_witness:
  "findJsonDifferences
     (JObj [(''tools'', JArr [JObj [(''name'', JStr ''b''), (''tags'', JArr [JNum ''2'', JNum ''1''])],
                             JObj [(''name'', JStr ''a'')], JNull])])
     (JObj [(''tools'', JArr [JObj [(''name'', JStr ''b''), (''tags'', JArr [JNum ''2'', JNum ''1''])],
                             JObj [(''name'', JStr ''a'')], JNull])]) [] = []"
  by (rule findJsonDifferences_reflexive)

text \<open>
  C9. When a later member of an array derives the same identity key as an earlier one,
  the earlier member is not the entry kept under that key, and the output of the array
  reconciliation does not depend on it: replacing it by any other member with the same
  key leaves the diff unchanged, on the base side and on the target side.
\<close>

theorem compareArrays_shadowed:
  assumes "i < j" "j < length xs"
    and "getItemKey (xs ! i) i = getItemKey (xs ! j) j"
    and "getItemKey x i = getItemKey (xs ! i) i"
  shows "map_of (collectItems xs) (getItemKey (xs ! i) i) \<noteq> Some (xs ! i, i)
       \<and> compareArrays (xs[i := x]) other path = compareArrays xs other path
       \<and> compareArrays other (xs[i := x]) path = compareArrays other xs path"
  using collectItems_shadowed[OF assms] collectItems_not_shadowed[OF assms(1-3)]
  by (simp add: compareArrays.simps)

text \<open>
  The claim's own example: a keyless member at index 0 and a member named \<^verbatim>\<open>#0\<close> after it.
\<close>

theorem compareArrays_shadowed_witness:
  "(0::nat) < 1 \<and> 1 < length [JNum ''5'', JObj [(''name'', JStr ''#0''), (''v'', JNum ''1'')]]
   \<and> getItemKey ([JNum ''5'', JObj [(''name'', JStr ''#0''), (''v'', JNum ''1'')]] ! 0) 0
       = getItemKey ([JNum ''5'', JObj [(''name'', JStr ''#0''), (''v'', JNum ''1'')]] ! 1) 1
   \<and> getItemKey (JStr ''other'') 0
       = getItemKey ([JNum ''5'', JObj [(''name'', JStr ''#0''), (''v'', JNum ''1'')]] ! 0) 0
   \<and> map_of (collectItems [JNum ''5'', JObj [(''name'', JStr ''#0''), (''v'', JNum ''1'')]]) ''#0''
       \<noteq> Some (JNum ''5'', 0)
   \<and> compareArrays ([JNum ''5'', JObj [(''name'', JStr ''#0''), (''v'', JNum ''1'')]][0 := JStr ''other''])
         [JObj [(''name'', JStr ''#0''), (''v'', JNum ''2'')]] ''tools''
       = compareArrays [JNum ''5'', JObj [(''name'', JStr ''#0''), (''v'', JNum ''1'')]]
         [JObj [(''name'', JStr ''#0''), (''v'', JNum ''2'')]] ''tools''
   \<and> compareArrays [JNum ''5'', JObj [(''name'', JStr ''#0''), (''v'', JNum ''1'')]]
         [JObj [(''name'', JStr ''#0''), (''v'', JNum ''2'')]] ''tools''
       = [''- tools[#0].v: 1'', ''+ tools[#0].v: 2'']"
proof -
  let ?xs = "[JNum ''5'', JObj [(''name'', JStr ''#0''), (''v'', JNum ''1'')]]"
  have h1: "(0::nat) < 1" by simp
  have h2: "1 < length ?xs" by simp
  have h3: "getItemKey (?xs ! 0) 0 = getItemKey (?xs ! 1) 1" by code_simp
  have h4: "getItemKey (JStr ''other'') 0 = getItemKey (?xs ! 0) 0" by code_simp
  have k: "getItemKey (?xs ! 0) 0 = ''#0''" by code_simp
  have ev: "compareArrays ?xs [JObj [(''name'', JStr ''#0''), (''v'', JNum ''2'')]] ''tools''
       = [''- tools[#0].v: 1'', ''+ tools[#0].v: 2'']"
    by code_simp
  from compareArrays_shadowed[OF h1 h2 h3 h4, of "[JObj [(''name'', JStr ''#0''), (''v'', JNum ''2'')]]" "''tools''"]
  show ?thesis using h3 h4 k ev by simp
qed

text \<open>
  C10. An endpoint whose content is the empty string is treated like a missing endpoint:
  against a non-empty content on the other side, both comparators enter the fixed
  "removed" or "added" text for it and never the output of the content differ.
\<close>

theorem empty_content_is_absent:
  assumes e: "map_of emptySide ep = None \<or> map_of emptySide ep = Some []"
    and f: "map_of fullSide ep = Some c" and c: "c \<noteq> []"
    and te: "toFiles rEmpty = emptySide" and tf: "toFiles rFull = fullSide"
  shows "map_of (compareResults emptySide fullSide) ep
           = Some ''Endpoint removed in current branch (was present in base)''
       \<and> map_of (compareResults fullSide emptySide) ep
           = Some ''Endpoint added in current branch (not present in base)''
       \<and> filter (\<lambda>d. endpoint d = ep) (compareProbeResults toFiles parse rFull rEmpty)
           = [\<lparr>endpoint = ep, diff = ''Endpoint removed in target (was present in base)''\<rparr>]
       \<and> filter (\<lambda>d. endpoint d = ep) (compareProbeResults toFiles parse rEmpty rFull)
           = [\<lparr>endpoint = ep, diff = ''Endpoint added in target (not present in base)''\<rparr>]"
proof -
  from f have mem: "ep \<in> set (map fst fullSide)" by (auto dest: map_of_SomeD intro: rev_image_eqI)
  from e have nt: "\<not> truthy (map_of emptySide ep)" by auto
  from f c have t: "truthy (map_of fullSide ep)" by simp
  show ?thesis
    using mem nt t
    by (simp add: compareResults_lookup compareProbeResults_filter te tf resultEntry_def probeEntry_def)
qed

theorem empty_content_is_absent_witness:
  "(map_of [(''tools'', [])] ''tools'' = None \<or> map_of [(''tools'', [])] ''tools'' = Some [])
   \<and> map_of [(''tools'', ''{}'')] ''tools'' = Some ''{}'' \<and> ''{}'' \<noteq> []
   \<and> id [(''tools'', [])] = [(''tools'', [])] \<and> id [(''tools'', ''{}'')] = [(''tools'', ''{}'')]
   \<and> map_of (compareResults [(''tools'', [])] [(''tools'', ''{}'')]) ''tools''
           = Some ''Endpoint removed in current branch (was present in base)''
   \<and> map_of (compareResults [(''tools'', ''{}'')] [(''tools'', [])]) ''tools''
           = Some ''Endpoint added in current branch (not present in base)''
   \<and> filter (\<lambda>d. endpoint d = ''tools'')
         (compareProbeResults id (\<lambda>s. None) [(''tools'', ''{}'')] [(''tools'', [])])
           = [\<lparr>endpoint = ''tools'', diff = ''Endpoint removed in target (was present in base)''\<rparr>]
   \<and> filter (\<lambda>d. endpoint d = ''tools'')
         (compareProbeResults id (\<lambda>s. None) [(''tools'', [])] [(''tools'', ''{}'')])
           = [\<lparr>endpoint = ''tools'', diff = ''Endpoint added in target (not present in base)''\<rparr>]"
proof -
  have h1: "map_of [(''tools'', [])] ''tools'' = None \<or> map_of [(''tools'', [])] ''tools'' = Some []"
    by simp
  have h2: "map_of [(''tools'', ''{}'')] ''tools'' = Some ''{}''" by simp
  have h3: "''{}'' \<noteq> []" by simp
  have h4: "id [(''tools'', [])] = [(''tools'', [])]" by simp
  have h5: "id [(''tools'', ''{}'')] = [(''tools'', ''{}'')]" by simp
  from empty_content_is_absent[where toFiles = id and parse = "\<lambda>s. None"
      and rEmpty = "[(''tools'', [])]" and rFull = "[(''tools'', ''{}'')]", OF h1 h2 h3 h4 h5] h1 h2 h3
  show ?thesis by simp
qed

end
